theory Spec2Isabelle
  imports Main "HOL-Library.Sublist" "HOL-Library.List_Lexorder"
begin

section \<open>Errors\<close>

text \<open>
  Every exception the modelled code raises or lets through is a value of this type.
  \<open>GenericException\<close> is Python's plain \<open>Exception(msg)\<close>; \<open>GitError\<close> stands for
  an exception of the version-control binding (a path that is no repository).
\<close>

datatype error =
    DirtyRepoError string
  | ShellException string
  | InvalidURL string
  | ValueError string
  | KeyError string
  | IndexError
  | TypeError
  | AttributeError string
  | AssertionError string
  | GenericException string
  | GitError string

section \<open>GitURL: the two syntax patterns\<close>

text \<open>
  \<open>GitURL.SYNTAX_PATTERNS\<close> holds two regular expressions. They are embedded as
  values of a small regular-expression type and run by a backtracking matcher that
  returns every way to match, in the order a backtracking engine tries them (a greedy
  repetition tries the longest run first, an optional part is tried present before
  absent). The first element is the match Python's \<open>re\<close> reports. URLs are
  ASCII strings.
\<close>

datatype cls = Word | NotAt | HostCh | Digit | AnyCh

definition is_lower :: "char \<Rightarrow> bool" where
  "is_lower c = (let n = (of_char c :: nat) in 97 \<le> n \<and> n \<le> 122)"

definition is_upper :: "char \<Rightarrow> bool" where
  "is_upper c = (let n = (of_char c :: nat) in 65 \<le> n \<and> n \<le> 90)"

definition is_digit :: "char \<Rightarrow> bool" where
  "is_digit c = (let n = (of_char c :: nat) in 48 \<le> n \<and> n \<le> 57)"

text \<open>\<open>\w\<close>, \<open>[^@]\<close>, \<open>[a-z0-9_.-]\<close>, \<open>[0-9]\<close> and \<open>.\<close> (any character but a newline).\<close>

fun in_cls :: "cls \<Rightarrow> char \<Rightarrow> bool" where
  "in_cls Word c = (is_lower c \<or> is_upper c \<or> is_digit c \<or> c = CHR ''_'')"
| "in_cls NotAt c = (c \<noteq> CHR ''@'')"
| "in_cls HostCh c =
     (is_lower c \<or> is_digit c \<or> c = CHR ''_'' \<or> c = CHR ''.'' \<or> c = CHR ''-'')"
| "in_cls Digit c = is_digit c"
| "in_cls AnyCh c = (c \<noteq> CHR 0x0A)"

datatype rx =
    Lit string
  | Plus cls
  | Star cls
  | Opt rx
  | Grp string rx
  | Cat rx rx

type_synonym groups = "(string \<times> string) list"

text \<open>
  \<open>runs P s\<close>: what is left of \<open>s\<close> after a run of characters satisfying \<open>P\<close>,
  the longest run first and the empty run last.
\<close>

fun runs :: "(char \<Rightarrow> bool) \<Rightarrow> string \<Rightarrow> string list" where
  "runs P [] = [[]]"
| "runs P (c # cs) = (if P c then runs P cs @ [c # cs] else [c # cs])"

fun rmatch :: "rx \<Rightarrow> groups \<times> string \<Rightarrow> (groups \<times> string) list" where
  "rmatch (Lit l) (g, s) = (if take (length l) s = l then [(g, drop (length l) s)] else [])"
| "rmatch (Plus c) (g, s) = map (Pair g) (butlast (runs (in_cls c) s))"
| "rmatch (Star c) (g, s) = map (Pair g) (runs (in_cls c) s)"
| "rmatch (Opt r) (g, s) = rmatch r (g, s) @ [(g, s)]"
| "rmatch (Grp n r) (g, s) =
     map (\<lambda>(g', s'). ((n, take (length s - length s') s) # g', s')) (rmatch r (g, s))"
| "rmatch (Cat r1 r2) (g, s) = concat (map (rmatch r2) (rmatch r1 (g, s)))"

text \<open>\<open>regex.search\<close>: the first match at the leftmost position that has one.\<close>

fun search :: "rx \<Rightarrow> string \<Rightarrow> groups option" where
  "search r s =
     (case rmatch r ([], s) of
        (g, _) # _ \<Rightarrow> Some g
      | [] \<Rightarrow> (case s of [] \<Rightarrow> None | _ # t \<Rightarrow> search r t))"

definition user_rx :: rx where
  "user_rx = Grp ''user'' (Cat (Plus Word) (Cat (Star NotAt) (Lit ''@'')))"

definition host_rx :: rx where
  "host_rx = Grp ''host'' (Plus HostCh)"

definition path_rx :: rx where
  "path_rx = Grp ''path'' (Cat (Star AnyCh) (Lit ''.git''))"

definition url_rx :: rx where
  "url_rx =
     Cat (Grp ''transport'' (Cat (Plus Word) (Lit ''://'')))
    (Cat (Opt user_rx)
    (Cat host_rx
    (Cat (Opt (Grp ''port'' (Cat (Lit '':'') (Plus Digit))))
    (Cat (Lit ''/'') path_rx))))"

definition ssh_rx :: rx where
  "ssh_rx = Cat user_rx (Cat host_rx (Cat (Lit '':'') path_rx))"

text \<open>
  \<open>match.groupdict()\<close> followed by the loop that turns \<open>None\<close> into the empty
  string: a group that took no part in the match reads as \<open>''''\<close>.
\<close>

definition grp :: "groups \<Rightarrow> string \<Rightarrow> string" where
  "grp g n = (case map_of g n of None \<Rightarrow> [] | Some v \<Rightarrow> v)"

record url_info =
  syntax_kind :: string
  host :: string
  user :: string
  port :: string
  path :: string
  transport :: string

text \<open>
  \<open>GitURL.parts\<close>: the patterns are tried in the dictionary's order, \<open>url\<close> before
  \<open>ssh\<close>; the \<open>ssh\<close> pattern has no transport and no port group, so these keep
  their initial empty string.
\<close>

definition parts :: "string \<Rightarrow> error + url_info" where
  "parts url =
     (case search url_rx url of
        Some g \<Rightarrow> Inr \<lparr>syntax_kind = ''url'', host = grp g ''host'', user = grp g ''user'',
                        port = grp g ''port'', path = grp g ''path'',
                        transport = grp g ''transport''\<rparr>
      | None \<Rightarrow>
          (case search ssh_rx url of
             Some g \<Rightarrow> Inr \<lparr>syntax_kind = ''ssh'', host = grp g ''host'', user = grp g ''user'',
                             port = [], path = grp g ''path'', transport = []\<rparr>
           | None \<Rightarrow> Inl (InvalidURL url)))"

text \<open>\<open>GitURL.format\<close>.\<close>

definition format :: "string \<Rightarrow> string \<Rightarrow> error + string" where
  "format url protocol =
     (case parts url of
        Inl e \<Rightarrow> Inl e
      | Inr p \<Rightarrow>
          if protocol = ''ssh'' then
            (let p = p\<lparr>user := ''git@''\<rparr>
             in Inr (user p @ host p @ '':'' @ path p))
          else
            (let p = p\<lparr>transport := protocol @ ''://'', port := [], user := []\<rparr>
             in Inr (transport p @ user p @ host p @ port p @ ''/'' @ path p)))"


text \<open>The shapes of the strings the named groups can capture.\<close>

definition is_user :: "string \<Rightarrow> bool" where
  "is_user u = (\<exists>w y. w \<noteq> [] \<and> (\<forall>a\<in>set w. in_cls Word a) \<and> CHR ''@'' \<notin> set y \<and> u = w @ y @ ''@'')"

definition is_host :: "string \<Rightarrow> bool" where
  "is_host h = (h \<noteq> [] \<and> (\<forall>a\<in>set h. in_cls HostCh a))"

definition is_path :: "string \<Rightarrow> bool" where
  "is_path p = (\<exists>x. (\<forall>a\<in>set x. a \<noteq> CHR 0x0A) \<and> p = x @ ''.git'')"

definition is_transport :: "string \<Rightarrow> bool" where
  "is_transport t = (\<exists>w. w \<noteq> [] \<and> (\<forall>a\<in>set w. in_cls Word a) \<and> t = w @ ''://'')"

definition is_port :: "string \<Rightarrow> bool" where
  "is_port t = (\<exists>d. d \<noteq> [] \<and> (\<forall>a\<in>set d. is_digit a) \<and> t = '':'' @ d)"


text \<open>\<open>fm r gs m\<close>: the first match of \<open>r\<close> from \<open>gs\<close> is \<open>m\<close>.\<close>

definition fm :: "rx \<Rightarrow> groups \<times> string \<Rightarrow> groups \<times> string \<Rightarrow> bool" where
  "fm r gs m = (\<exists>ms. rmatch r gs = m # ms)"


section \<open>The repository descriptor, the command runner and the local working copies\<close>

text \<open>
  \<open>Repo\<close> holds the declared state of one repository. Of the two logs it keeps,
  the command log \<open>_logged_cmds\<close> is modelled in full: each entry is the command text
  and the working directory it ran in (\<open>None\<close> when the caller passed no directory).
  The message log and the console output of the repository's methods do not steer any
  decision and are left out. \<open>branch\<close> is \<open>None\<close> when the caller passed
  \<open>branch=None\<close>.
\<close>

record repo =
  name :: string
  dpath :: string
  code_dpath :: "string option"
  remotes :: "(string \<times> string) list"
  remote :: string
  branch :: "string option"
  url :: string
  pkg_dpath :: string
  verbose :: int
  logged_cmds :: "(string \<times> string option) list"

text \<open>
  What \<open>ub.cmd\<close> returns: the captured output, the exit code, and \<open>report\<close>, the
  text \<open>ub.repr2(info)\<close> that \<open>_cmd\<close> puts into a \<open>ShellException\<close>.
\<close>

record cmd_info =
  out :: string
  err :: string
  ret :: int
  report :: string

text \<open>
  The local working copy as the version-control binding shows it: whether it is dirty,
  the registered remotes (name, URLs, the answer of \<open>exists()\<close>, the names of the
  remote branches known locally), the active branch with the remote name of its tracking
  branch (\<open>None\<close> for a detached head, where \<open>active_branch\<close> raises
  \<open>TypeError\<close>), the tags and the commit of the head. The commit of a tag is
  \<open>None\<close> when the tag points at a tree or a blob, and the commit of the head is
  \<open>None\<close> when the head has no commit yet: reading \<open>.commit\<close> then raises
  \<open>ValueError\<close>.
\<close>

record remote_cfg =
  rname :: string
  rurls :: "string list"
  rexists :: bool
  rrefs :: "string list"

record tag_cfg =
  tname :: string
  tcommit :: "string option"

record workcopy =
  dirty :: bool
  wremotes :: "remote_cfg list"
  active_branch :: "(string \<times> string option) option"
  tags :: "tag_cfg list"
  head_commit :: "string option"

datatype node = Absent | NotRepo | WorkCopy workcopy

type_synonym world = "string \<Rightarrow> node"

text \<open>
  The command runner is a parameter: it maps a command, its working directory and the
  world to the result of the command and the world it leaves behind.
\<close>

type_synonym runner = "string \<Rightarrow> string option \<Rightarrow> world \<Rightarrow> cmd_info \<times> world"

type_synonym st = "repo \<times> world"

type_synonym 'a res = "(error + 'a) \<times> st"

subsection \<open>Sequencing, raising and catching\<close>

definition return :: "'a \<Rightarrow> st \<Rightarrow> 'a res" where
  "return a s = (Inr a, s)"

definition raise :: "error \<Rightarrow> st \<Rightarrow> 'a res" where
  "raise e s = (Inl e, s)"

definition bind :: "(st \<Rightarrow> 'a res) \<Rightarrow> ('a \<Rightarrow> st \<Rightarrow> 'b res) \<Rightarrow> st \<Rightarrow> 'b res" where
  "bind m f s = (case m s of (Inl e, s') \<Rightarrow> (Inl e, s') | (Inr a, s') \<Rightarrow> f a s')"

text \<open>
  \<open>try: m except (errors satisfying p): h else: f\<close>. Errors of the handler and of the
  else block are not caught.
\<close>

definition try_else ::
  "(st \<Rightarrow> 'a res) \<Rightarrow> (error \<Rightarrow> bool) \<Rightarrow> (error \<Rightarrow> st \<Rightarrow> 'b res) \<Rightarrow> ('a \<Rightarrow> st \<Rightarrow> 'b res) \<Rightarrow>
     st \<Rightarrow> 'b res" where
  "try_else m p h f s =
     (case m s of
        (Inl e, s') \<Rightarrow> if p e then h e s' else (Inl e, s')
      | (Inr a, s') \<Rightarrow> f a s')"

definition catch :: "(st \<Rightarrow> 'a res) \<Rightarrow> (error \<Rightarrow> bool) \<Rightarrow> (error \<Rightarrow> st \<Rightarrow> 'a res) \<Rightarrow> st \<Rightarrow> 'a res" where
  "catch m p h = try_else m p h return"

fun is_IndexError :: "error \<Rightarrow> bool" where
  "is_IndexError IndexError = True"
| "is_IndexError _ = False"

fun is_ShellException :: "error \<Rightarrow> bool" where
  "is_ShellException (ShellException _) = True"
| "is_ShellException _ = False"


definition get_repo :: "st \<Rightarrow> repo res" where
  "get_repo s = (Inr (fst s), s)"

subsection \<open>Reading the file system and the working copy\<close>

definition path_exists :: "string \<Rightarrow> st \<Rightarrow> bool res" where
  "path_exists p s = (Inr (snd s p \<noteq> Absent), s)"

text \<open>
  \<open>repo.pygit\<close>: opening the repository at \<open>dpath\<close> fails when the path does not
  exist or holds no repository.
\<close>

definition pygit :: "st \<Rightarrow> workcopy res" where
  "pygit s =
     (case snd s (dpath (fst s)) of
        Absent \<Rightarrow> (Inl (GitError ''NoSuchPathError''), s)
      | NotRepo \<Rightarrow> (Inl (GitError ''InvalidGitRepositoryError''), s)
      | WorkCopy wc \<Rightarrow> (Inr wc, s))"

definition find_remote :: "string \<Rightarrow> workcopy \<Rightarrow> remote_cfg option" where
  "find_remote n wc = find (\<lambda>rc. rname rc = n) (wremotes wc)"

text \<open>
  \<open>repo.pygit.remotes[n]\<close> raises \<open>IndexError\<close> for an unknown name. The remote
  object it returns is a handle that reads the working copy at each use, so the handle is
  the name; its \<open>str\<close> is the name too.
\<close>

definition remotes_getitem :: "string \<Rightarrow> st \<Rightarrow> string res" where
  "remotes_getitem n =
     bind pygit (\<lambda>wc. case find_remote n wc of None \<Rightarrow> raise IndexError | Some _ \<Rightarrow> return n)"

definition remote_exists :: "string \<Rightarrow> st \<Rightarrow> bool res" where
  "remote_exists n =
     bind pygit (\<lambda>wc. case find_remote n wc of None \<Rightarrow> return False
                        | Some rc \<Rightarrow> return (rexists rc))"

definition remote_refs :: "string \<Rightarrow> st \<Rightarrow> string list res" where
  "remote_refs n =
     bind pygit (\<lambda>wc. case find_remote n wc of None \<Rightarrow> raise (GitError ''no such remote'')
                        | Some rc \<Rightarrow> return (rrefs rc))"

definition remote_urls :: "string \<Rightarrow> st \<Rightarrow> string list res" where
  "remote_urls n =
     bind pygit (\<lambda>wc. case find_remote n wc of None \<Rightarrow> raise (GitError ''no such remote'')
                        | Some rc \<Rightarrow> return (rurls rc))"

subsection \<open>Running a command\<close>

text \<open>
  \<open>Repo._cmd\<close>: the command is logged before it runs; a non-zero exit code raises
  \<open>ShellException\<close>.
\<close>

definition cmd :: "runner \<Rightarrow> string \<Rightarrow> string option \<Rightarrow> st \<Rightarrow> cmd_info res" where
  "cmd sh command cwd s =
     (let r = (fst s)\<lparr>logged_cmds := logged_cmds (fst s) @ [(command, cwd)]\<rparr>;
          (info, w) = sh command cwd (snd s)
      in if ret info \<noteq> 0 then (Inl (ShellException (report info)), (r, w))
         else (Inr info, (r, w)))"

text \<open>\<open>_cmd\<close> without a directory runs in \<open>repo.dpath\<close>.\<close>

definition cmd_here :: "runner \<Rightarrow> string \<Rightarrow> st \<Rightarrow> unit res" where
  "cmd_here sh command =
     bind get_repo (\<lambda>r. bind (cmd sh command (Some (dpath r))) (\<lambda>_. return ()))"

definition branch_str :: "repo \<Rightarrow> string" where
  "branch_str r = (case branch r of None \<Rightarrow> ''None'' | Some b \<Rightarrow> b)"

definition branch_in :: "repo \<Rightarrow> string list \<Rightarrow> bool" where
  "branch_in r names = (case branch r of None \<Rightarrow> False | Some b \<Rightarrow> b \<in> set names)"


section \<open>The reconciliation engine\<close>

text \<open>
  \<open>Repo.clone\<close>. A failure whose text names a missing remote branch is replaced by a
  plain exception; any other failure is raised again.
\<close>

definition clone_command :: "repo \<Rightarrow> string" where
  "clone_command r =
     ''git clone '' @
     (''--recursive'' @ (case branch r of None \<Rightarrow> [] | Some b \<Rightarrow> '' -b '' @ b)) @
     '' '' @ url r @ '' '' @ dpath r"

definition clone :: "runner \<Rightarrow> st \<Rightarrow> unit res" where
  "clone sh =
     bind get_repo (\<lambda>r.
     bind (path_exists (dpath r)) (\<lambda>ex.
       if ex then raise (ValueError ''cannot clone into non-empty directory'')
       else
         catch (bind (cmd sh (clone_command r) (code_dpath r)) (\<lambda>_. return ()))
           (\<lambda>e. True)
           (\<lambda>e. case e of
                  ShellException text \<Rightarrow>
                    if sublist ''Remote branch'' text \<and> sublist ''not found'' text
                    then raise (GenericException ''Cannot find branch'')
                    else raise e
                | _ \<Rightarrow> raise e)))"

text \<open>\<open>Repo.ensure_clone\<close>.\<close>

definition ensure_clone :: "runner \<Rightarrow> st \<Rightarrow> unit res" where
  "ensure_clone sh =
     bind get_repo (\<lambda>r.
     bind (path_exists (dpath r)) (\<lambda>ex. if ex then return () else clone sh))"

text \<open>\<open>Repo._assert_clean\<close>.\<close>

definition assert_clean :: "st \<Rightarrow> unit res" where
  "assert_clean =
     bind get_repo (\<lambda>r.
     bind pygit (\<lambda>wc. if dirty wc then raise (DirtyRepoError (name r)) else return ()))"

text \<open>
  \<open>Repo._ensure_remotes\<close>: the loop over the declared remotes. A registered remote is
  only compared with its declared URL (a warning); a missing one is added, which dry
  mode refuses with an \<open>AssertionError\<close>. Only \<open>ShellException\<close> is caught, and
  raised again for the active remote.
\<close>

fun ensure_remotes_loop :: "runner \<Rightarrow> bool \<Rightarrow> (string \<times> string) list \<Rightarrow> st \<Rightarrow> unit res" where
  "ensure_remotes_loop sh dry [] = return ()"
| "ensure_remotes_loop sh dry ((remote_name, remote_url) # rest) =
     bind
       (catch
          (bind (remotes_getitem remote_name) (\<lambda>h.
           bind (remote_urls h) (\<lambda>have_urls. return ())))
          is_IndexError
          (\<lambda>_. catch
                 (if \<not> dry
                  then cmd_here sh (''git remote add '' @ remote_name @ '' '' @ remote_url)
                  else raise (AssertionError ''In dry mode, cannot ensure remotes''))
                 is_ShellException
                 (\<lambda>e. bind get_repo (\<lambda>r.
                    if remote_name = remote r then raise e else return ()))))
       (\<lambda>_. ensure_remotes_loop sh dry rest)"

definition ensure_remotes :: "runner \<Rightarrow> bool \<Rightarrow> st \<Rightarrow> unit res" where
  "ensure_remotes sh dry = bind get_repo (\<lambda>r. ensure_remotes_loop sh dry (remotes r))"

text \<open>
  \<open>Repo._registered_remote\<close>. The second half only writes messages, but it asks the
  remote whether it exists.
\<close>

definition registered_remote :: "runner \<Rightarrow> bool \<Rightarrow> st \<Rightarrow> string option res" where
  "registered_remote sh dry =
     bind get_repo (\<lambda>r.
     bind
       (catch (bind (remotes_getitem (remote r)) (\<lambda>h. return (Some h)))
          is_IndexError
          (\<lambda>_. bind (ensure_remotes sh dry) (\<lambda>_.
                catch (bind (remotes_getitem (remote r)) (\<lambda>h. return (Some h)))
                  is_IndexError
                  (\<lambda>_. return None))))
       (\<lambda>rm. case rm of
               None \<Rightarrow> return None
             | Some h \<Rightarrow>
                 try_else
                   (bind (remote_exists h) (\<lambda>ex. if \<not> ex then raise IndexError else return ()))
                   is_IndexError
                   (\<lambda>_. return (Some h))
                   (\<lambda>_. bind (remote_exists h) (\<lambda>ex. return (Some h)))))"

subsection \<open>ensure\<close>

text \<open>Lines 560 to 579: fetch when the remote does not know the branch.\<close>

definition ensure_fetch :: "runner \<Rightarrow> bool \<Rightarrow> string \<Rightarrow> st \<Rightarrow> unit res" where
  "ensure_fetch sh dry h =
     bind get_repo (\<lambda>r.
     try_else
       (bind (remote_exists h) (\<lambda>ex. if \<not> ex then raise IndexError else return ()))
       is_IndexError
       (\<lambda>_. return ())
       (\<lambda>_. bind (remote_exists h) (\<lambda>ex.
          if ex then
            bind (remote_refs h) (\<lambda>remote_branchnames.
              if \<not> branch_in r remote_branchnames then
                (if dry then return () else cmd_here sh (''git fetch '' @ h))
              else return ())
          else return ())))"

text \<open>Lines 581 to 593: point the remote to the declared URL.\<close>

definition ensure_url :: "runner \<Rightarrow> bool \<Rightarrow> string \<Rightarrow> st \<Rightarrow> unit res" where
  "ensure_url sh dry h =
     bind get_repo (\<lambda>r.
     bind (remote_urls h) (\<lambda>urls.
       if url r \<notin> set urls then
         (if dry then return ()
          else cmd_here sh (''git remote set-url '' @ remote r @ '' '' @ url r))
       else return ()))"

text \<open>
  Lines 595 to 614: where the head is. The result is \<open>ref_is_tag\<close>, the remote name
  of the tracking branch (read before any checkout) and \<open>is_on_correct_commit\<close>.
\<close>

definition ensure_ref :: "st \<Rightarrow> (bool \<times> string option \<times> bool) res" where
  "ensure_ref =
     bind get_repo (\<lambda>r.
     bind pygit (\<lambda>wc.
       case active_branch wc of
         None \<Rightarrow>
           (let candidates = filter (\<lambda>t. Some (tname t) = branch r) (tags wc)
            in if length candidates \<noteq> 1 then raise TypeError
               else
                 (case head_commit wc of
                    None \<Rightarrow> raise (ValueError ''the head has no commit'')
                  | Some head_sha \<Rightarrow>
                      (case tcommit (hd candidates) of
                         None \<Rightarrow> raise (ValueError ''the tag points at no commit'')
                       | Some tag_sha \<Rightarrow> return (True, None, head_sha = tag_sha))))
       | Some (active_branch_name, tracking_branch) \<Rightarrow>
           return (False, tracking_branch, branch r = Some active_branch_name)))"

text \<open>Lines 616 to 629: check the branch out, with the fetch and create fallback.\<close>

definition ensure_checkout :: "runner \<Rightarrow> bool \<Rightarrow> string \<Rightarrow> bool \<Rightarrow> st \<Rightarrow> unit res" where
  "ensure_checkout sh dry h is_on_correct_commit =
     bind get_repo (\<lambda>r.
       if \<not> is_on_correct_commit then
         (if dry then return ()
          else
            catch (cmd_here sh (''git checkout '' @ branch_str r))
              is_ShellException
              (\<lambda>_. catch
                     (bind (cmd_here sh (''git fetch '' @ h)) (\<lambda>_.
                        cmd_here sh (''git checkout -b '' @ branch_str r @ '' '' @ remote r @
                                       ''/'' @ branch_str r)))
                     is_ShellException
                     (\<lambda>_. raise (GenericException ''does the branch exist on the remote?''))))
       else return ())"

text \<open>Lines 631 to 660: the upstream of the branch.\<close>

definition ensure_upstream :: "runner \<Rightarrow> bool \<Rightarrow> bool \<Rightarrow> string option \<Rightarrow> st \<Rightarrow> unit res" where
  "ensure_upstream sh dry ref_is_tag tracking_branch =
     bind get_repo (\<lambda>r.
       if \<not> ref_is_tag \<and> (tracking_branch = None \<or> tracking_branch \<noteq> Some (remote r)) then
         try_else
           (bind (remotes_getitem (remote r)) (\<lambda>h.
            bind (remote_exists h) (\<lambda>ex. if \<not> ex then raise IndexError else return h)))
           is_IndexError
           (\<lambda>_. return ())
           (\<lambda>h. bind (remote_exists h) (\<lambda>ex.
              if ex then
                bind (remote_refs h) (\<lambda>remote_branchnames.
                bind
                  (if \<not> branch_in r remote_branchnames then
                     (if dry then return ()
                      else
                        bind (cmd_here sh (''git fetch '' @ remote r)) (\<lambda>_.
                        bind (remote_refs h) (\<lambda>remote_branchnames.
                          if \<not> branch_in r remote_branchnames
                          then raise (GenericException ''Branch name still does not exist'')
                          else return ())))
                   else return ())
                  (\<lambda>_. if \<not> dry then
                          cmd_here sh (''git branch --set-upstream-to='' @ remote r @ ''/'' @
                                         branch_str r @ '' '' @ branch_str r)
                        else return ()))
              else return ()))
       else return ())"

text \<open>Lines 559 to 660, run when the remote was found.\<close>

definition ensure_remote_block :: "runner \<Rightarrow> bool \<Rightarrow> string \<Rightarrow> st \<Rightarrow> unit res" where
  "ensure_remote_block sh dry h =
     bind (ensure_fetch sh dry h) (\<lambda>_.
     bind (ensure_url sh dry h) (\<lambda>_.
     bind ensure_ref (\<lambda>(ref_is_tag, tracking_branch, is_on_correct_commit).
     bind (ensure_checkout sh dry h is_on_correct_commit) (\<lambda>_.
     ensure_upstream sh dry ref_is_tag tracking_branch))))"

text \<open>
  Lines 663 to 666: the tags at the commit of the head. For each tag in turn the commit
  of the tag and then the commit of the head are read, outside any handler.
\<close>

fun head_tags_loop :: "string option \<Rightarrow> tag_cfg list \<Rightarrow> error + tag_cfg list" where
  "head_tags_loop head_sha [] = Inr []"
| "head_tags_loop head_sha (t # ts) =
     (case tcommit t of
        None \<Rightarrow> Inl (ValueError ''the tag points at no commit'')
      | Some tag_sha \<Rightarrow>
          (case head_sha of
             None \<Rightarrow> Inl (ValueError ''the head has no commit'')
           | Some h \<Rightarrow>
               (case head_tags_loop head_sha ts of
                  Inl e \<Rightarrow> Inl e
                | Inr rest \<Rightarrow> Inr (if tag_sha = h then t # rest else rest))))"

definition head_tags :: "st \<Rightarrow> tag_cfg list res" where
  "head_tags =
     bind pygit (\<lambda>wc.
       case head_tags_loop (head_commit wc) (tags wc) of
         Inl e \<Rightarrow> raise e
       | Inr ts \<Rightarrow> return ts)"

text \<open>
  \<open>Repo.ensure\<close>. The closing lines collect the tags at the head and report them; only
  the report is guarded by a handler for every exception.
\<close>

definition ensure :: "runner \<Rightarrow> bool \<Rightarrow> st \<Rightarrow> unit res" where
  "ensure sh dry =
     bind get_repo (\<lambda>r.
     bind (path_exists (dpath r)) (\<lambda>ex.
       if \<not> ex \<and> dry then return ()
       else
         bind (ensure_clone sh) (\<lambda>_.
         bind assert_clean (\<lambda>_.
         bind (registered_remote sh dry) (\<lambda>rm.
         bind (case rm of None \<Rightarrow> return () | Some h \<Rightarrow> ensure_remote_block sh dry h) (\<lambda>_.
         bind head_tags (\<lambda>_. return ())))))))"

text \<open>\<open>Repo.check\<close>, \<open>Repo.pull\<close> and \<open>Repo.status\<close>.\<close>

definition check :: "runner \<Rightarrow> st \<Rightarrow> unit res" where
  "check sh = ensure sh True"

definition pull :: "runner \<Rightarrow> st \<Rightarrow> unit res" where
  "pull sh = bind assert_clean (\<lambda>_. cmd_here sh ''git pull'')"

definition status :: "runner \<Rightarrow> st \<Rightarrow> unit res" where
  "status sh = cmd_here sh ''git status''"


text \<open>What \<open>ensure\<close> does after the clone step.\<close>

definition ensure_rest :: "runner \<Rightarrow> bool \<Rightarrow> st \<Rightarrow> unit res" where
  "ensure_rest sh dry =
     bind assert_clean (\<lambda>_.
     bind (registered_remote sh dry) (\<lambda>rm.
     bind (case rm of None \<Rightarrow> return () | Some h \<Rightarrow> ensure_remote_block sh dry h) (\<lambda>_.
     bind head_tags (\<lambda>_. return ()))))"

text \<open>\<open>pres I m\<close>: running \<open>m\<close> keeps the property \<open>I\<close> of the state.\<close>

definition pres :: "(st \<Rightarrow> bool) \<Rightarrow> (st \<Rightarrow> 'a res) \<Rightarrow> bool" where
  "pres I m = (\<forall>s. I s \<longrightarrow> I (snd (m s)))"

subsection \<open>The desired state\<close>

text \<open>
  A repository is in the desired state when its directory holds a clean working copy,
  the active remote is registered, exists and has the declared URL, and the head is
  right: either the active branch is the declared one and tracks the active remote, or
  the head is detached at the commit of the single tag that carries the declared name.
\<close>

definition head_ok :: "repo \<Rightarrow> workcopy \<Rightarrow> bool" where
  "head_ok r wc =
     (case active_branch wc of
        Some (b, t) \<Rightarrow> branch r = Some b \<and> t = Some (remote r)
      | None \<Rightarrow>
          (case filter (\<lambda>t. Some (tname t) = branch r) (tags wc) of
             [t] \<Rightarrow> head_commit wc \<noteq> None \<and> head_commit wc = tcommit t
           | _ \<Rightarrow> False))"

definition desired_state :: "repo \<Rightarrow> world \<Rightarrow> bool" where
  "desired_state r w =
     (case w (dpath r) of
        WorkCopy wc \<Rightarrow>
          \<not> dirty wc \<and>
          (case find_remote (remote r) wc of
             Some rc \<Rightarrow> rexists rc \<and> url r \<in> set (rurls rc)
           | None \<Rightarrow> False) \<and>
          head_ok r wc
      | _ \<Rightarrow> False)"

text \<open>The declared branch name is among the remote branches known for the active remote.\<close>

definition branch_known :: "repo \<Rightarrow> world \<Rightarrow> bool" where
  "branch_known r w =
     (case w (dpath r) of
        WorkCopy wc \<Rightarrow>
          (case find_remote (remote r) wc of
             Some rc \<Rightarrow> branch_in r (rrefs rc)
           | None \<Rightarrow> False)
      | _ \<Rightarrow> False)"

subsection \<open>Example repositories, working copies and runners\<close>

definition ok_info :: cmd_info where
  "ok_info = \<lparr>out = [], err = [], ret = 0, report = []\<rparr>"

definition fail_info :: cmd_info where
  "fail_info = \<lparr>out = [], err = ''fatal'', ret = 1, report = ''fatal''\<rparr>"

text \<open>Every command succeeds and changes nothing.\<close>

definition sh_ok :: runner where
  "sh_ok = (\<lambda>command cwd w. (ok_info, w))"

text \<open>Every command fails and changes nothing.\<close>

definition sh_fail :: runner where
  "sh_fail = (\<lambda>command cwd w. (fail_info, w))"

text \<open>Every command succeeds and removes every directory.\<close>

definition sh_wipe :: runner where
  "sh_wipe = (\<lambda>command cwd w. (ok_info, (\<lambda>p. Absent)))"

definition ex_repo :: repo where
  "ex_repo =
     \<lparr>name = ''proj'', dpath = ''/code/proj'', code_dpath = Some ''/code'',
      remotes = [(''origin'', ''https://host/group/proj.git'')], remote = ''origin'',
      branch = Some ''master'', url = ''https://host/group/proj.git'',
      pkg_dpath = ''/code/proj/proj'', verbose = 3, logged_cmds = []\<rparr>"

definition ex_origin :: remote_cfg where
  "ex_origin =
     \<lparr>rname = ''origin'', rurls = [''https://host/group/proj.git''], rexists = True,
      rrefs = [''master'']\<rparr>"

definition ex_wc :: workcopy where
  "ex_wc =
     \<lparr>dirty = False, wremotes = [ex_origin], active_branch = Some (''master'', Some ''origin''),
      tags = [], head_commit = Some ''c0''\<rparr>"

definition world_of :: "string \<Rightarrow> workcopy \<Rightarrow> world" where
  "world_of d wc = (\<lambda>p. if p = d then WorkCopy wc else Absent)"


definition ex_dirty_world :: world where
  "ex_dirty_world = world_of ''/code/proj'' (ex_wc\<lparr>dirty := True\<rparr>)"

definition ex_world :: world where
  "ex_world = world_of ''/code/proj'' ex_wc"

text \<open>On the declared branch with the right upstream, but the remote lists no such branch.\<close>

definition ex_world_norefs :: world where
  "ex_world_norefs =
     world_of ''/code/proj'' (ex_wc\<lparr>wremotes := [ex_origin\<lparr>rrefs := []\<rparr>]\<rparr>)"

text \<open>Pinned to a tag: the head is detached at the commit of the tag \<open>v1.0\<close>.\<close>

definition ex_tag_repo :: repo where
  "ex_tag_repo = ex_repo\<lparr>branch := Some ''v1.0''\<rparr>"

definition ex_tag_world :: world where
  "ex_tag_world =
     world_of ''/code/proj''
       (ex_wc\<lparr>active_branch := None, tags := [\<lparr>tname = ''v1.0'', tcommit = Some ''c0''\<rparr>]\<rparr>)"

definition fetch_entry :: "string \<times> string option" where
  "fetch_entry = (''git fetch origin'', Some ''/code/proj'')"


text \<open>What dry mode raises for a remote it would have to add.\<close>

definition dry_refusal :: error where
  "dry_refusal = AssertionError ''In dry mode, cannot ensure remotes''"

definition add_command :: "string \<Rightarrow> string \<Rightarrow> string" where
  "add_command n u = ''git remote add '' @ n @ '' '' @ u"

text \<open>
  \<open>only_adds r s\<close>: the state \<open>s\<close> holds the descriptor \<open>r\<close> with nothing but
  \<open>git remote add\<close> commands for declared remotes appended to its command log.
\<close>

definition only_adds :: "repo \<Rightarrow> st \<Rightarrow> bool" where
  "only_adds r s =
     (\<exists>adds. fst s = r\<lparr>logged_cmds := logged_cmds r @ adds\<rparr> \<and>
        (\<forall>c\<in>set adds. \<exists>n u. (n, u) \<in> set (remotes r) \<and> c = (add_command n u, Some (dpath r))))"

text \<open>The working copy has no remote registered.\<close>

definition ex_world_noremote :: world where
  "ex_world_noremote = world_of ''/code/proj'' (ex_wc\<lparr>wremotes := []\<rparr>)"

definition add_entry :: "string \<times> string option" where
  "add_entry = (''git remote add origin https://host/group/proj.git'', Some ''/code/proj'')"


section \<open>upgrade\<close>
















text \<open>\<open>log_prefix L s\<close>: the command log of the state \<open>s\<close> starts with \<open>L\<close>.\<close>

definition log_prefix :: "(string \<times> string option) list \<Rightarrow> st \<Rightarrow> bool" where
  "log_prefix L s = prefix L (logged_cmds (fst s))"

definition fetch_command :: "repo \<Rightarrow> string \<times> string option" where
  "fetch_command r = (''git fetch '' @ remote r, Some (dpath r))"

text \<open>The first declared remote that the working copy has not registered.\<close>

definition first_missing :: "workcopy \<Rightarrow> (string \<times> string) list \<Rightarrow> (string \<times> string) option" where
  "first_missing wc rs = find (\<lambda>(n, u). find_remote n wc = None) rs"


section \<open>The registry\<close>








section \<open>Building a descriptor and rewriting its protocol\<close>






















section \<open>Properties of the matcher\<close>

lemma runs_mem: "r \<in> set (runs P s) \<longleftrightarrow> (\<exists>x. s = x @ r \<and> (\<forall>c\<in>set x. P c))"
proof (induction s)
  case Nil
  then show ?case by auto
next
  case (Cons c cs)
  show ?case
  proof (cases "P c")
    case True
    have "(\<exists>x. c # cs = x @ r \<and> (\<forall>c\<in>set x. P c)) \<longleftrightarrow>
          (r = c # cs \<or> (\<exists>x. cs = x @ r \<and> (\<forall>c\<in>set x. P c)))"
      using True by (auto simp: Cons_eq_append_conv)
    with Cons True show ?thesis by auto
  next
    case False
    then show ?thesis by (auto simp: Cons_eq_append_conv)
  qed
qed

lemma butlast_runs: "butlast (runs P s) = (case s of [] \<Rightarrow> [] | c # cs \<Rightarrow> if P c then runs P cs else [])"
  by (cases s) auto

lemma runs_plus_mem:
  "r \<in> set (butlast (runs P s)) \<longleftrightarrow> (\<exists>x. x \<noteq> [] \<and> s = x @ r \<and> (\<forall>c\<in>set x. P c))"
proof (cases s)
  case Nil
  then show ?thesis by (simp add: butlast_runs)
next
  case (Cons c cs)
  show ?thesis
  proof (cases "P c")
    case True
    have "(\<exists>x. x \<noteq> [] \<and> c # cs = x @ r \<and> (\<forall>c\<in>set x. P c)) \<longleftrightarrow>
          (\<exists>y. cs = y @ r \<and> (\<forall>c\<in>set y. P c))"
      using True by (auto simp: Cons_eq_append_conv)
    then show ?thesis using Cons True by (simp add: butlast_runs runs_mem)
  next
    case False
    then show ?thesis using Cons by (auto simp: butlast_runs Cons_eq_append_conv)
  qed
qed

lemma take_prefix_eq: "take (length l) s = l \<longleftrightarrow> (\<exists>t. s = l @ t)"
  by (metis append_eq_conv_conj append_take_drop_id)

lemma rmatch_Lit_mem: "(g', s') \<in> set (rmatch (Lit l) (g, s)) \<longleftrightarrow> g' = g \<and> s = l @ s'"
  by (auto simp: take_prefix_eq)

lemma rmatch_Plus_mem:
  "(g', s') \<in> set (rmatch (Plus c) (g, s)) \<longleftrightarrow>
     g' = g \<and> (\<exists>x. x \<noteq> [] \<and> s = x @ s' \<and> (\<forall>a\<in>set x. in_cls c a))"
  by (auto simp: runs_plus_mem)

lemma rmatch_Star_mem:
  "(g', s') \<in> set (rmatch (Star c) (g, s)) \<longleftrightarrow>
     g' = g \<and> (\<exists>x. s = x @ s' \<and> (\<forall>a\<in>set x. in_cls c a))"
  by (auto simp: runs_mem)

lemma rmatch_Opt_mem:
  "m \<in> set (rmatch (Opt r) (g, s)) \<longleftrightarrow> m \<in> set (rmatch r (g, s)) \<or> m = (g, s)"
  by auto

lemma rmatch_Cat_mem:
  "m \<in> set (rmatch (Cat r1 r2) (g, s)) \<longleftrightarrow>
     (\<exists>g1 s1. (g1, s1) \<in> set (rmatch r1 (g, s)) \<and> m \<in> set (rmatch r2 (g1, s1)))"
  by auto

lemma rmatch_Grp_mem:
  "(g', s') \<in> set (rmatch (Grp n r) (g, s)) \<longleftrightarrow>
     (\<exists>g1. (g1, s') \<in> set (rmatch r (g, s)) \<and> g' = (n, take (length s - length s') s) # g1)"
  by (auto simp: image_iff split: prod.splits) 

lemma rmatch_suffix: "(g', s') \<in> set (rmatch r (g, s)) \<Longrightarrow> \<exists>x. s = x @ s'"
proof (induction r arbitrary: g s g' s')
  case (Lit l) then show ?case unfolding rmatch_Lit_mem by auto
next
  case (Plus c) then show ?case unfolding rmatch_Plus_mem by blast
next
  case (Star c) then show ?case unfolding rmatch_Star_mem by blast
next
  case (Opt r) then show ?case unfolding rmatch_Opt_mem by auto
next
  case (Grp n r) then show ?case unfolding rmatch_Grp_mem by blast
next
  case (Cat r1 r2)
  from Cat.prems obtain g1 s1 where a: "(g1, s1) \<in> set (rmatch r1 (g, s))"
    and b: "(g', s') \<in> set (rmatch r2 (g1, s1))" unfolding rmatch_Cat_mem by blast
  from Cat.IH(1)[OF a] Cat.IH(2)[OF b] show ?case by auto
qed

lemma rmatch_mono:
  "(g', s') \<in> set (rmatch r (g, s)) \<Longrightarrow> (g', s' @ t) \<in> set (rmatch r (g, s @ t))"
proof (induction r arbitrary: g s g' s')
  case (Lit l) then show ?case unfolding rmatch_Lit_mem by auto
next
  case (Plus c) then show ?case unfolding rmatch_Plus_mem by auto
next
  case (Star c) then show ?case unfolding rmatch_Star_mem by auto
next
  case (Opt r) then show ?case unfolding rmatch_Opt_mem by auto
next
  case (Grp n r)
  from Grp.prems obtain g1 where a: "(g1, s') \<in> set (rmatch r (g, s))"
    and b: "g' = (n, take (length s - length s') s) # g1" unfolding rmatch_Grp_mem by blast
  from rmatch_suffix[OF a] obtain x where x: "s = x @ s'" by blast
  from Grp.IH[OF a] b x show ?case unfolding rmatch_Grp_mem by auto
next
  case (Cat r1 r2)
  from Cat.prems obtain g1 s1 where a: "(g1, s1) \<in> set (rmatch r1 (g, s))"
    and b: "(g', s') \<in> set (rmatch r2 (g1, s1))" unfolding rmatch_Cat_mem by blast
  from Cat.IH(1)[OF a] Cat.IH(2)[OF b] show ?case unfolding rmatch_Cat_mem by blast
qed

lemma search_Some:
  "search r s = Some g \<Longrightarrow> \<exists>k rest ms. k \<le> length s \<and> rmatch r ([], drop k s) = (g, rest) # ms"
proof (induction s)
  case Nil
  then show ?case by (auto split: list.splits)
next
  case (Cons c cs)
  show ?case
  proof (cases "rmatch r ([], c # cs)")
    case Nil
    with Cons.prems have "search r cs = Some g" by simp
    from Cons.IH[OF this] obtain k rest ms where "k \<le> length cs" "rmatch r ([], drop k cs) = (g, rest) # ms" by blast
    then have "Suc k \<le> length (c # cs) \<and> rmatch r ([], drop (Suc k) (c # cs)) = (g, rest) # ms" by simp
    then show ?thesis by blast
  next
    case (Cons m ms)
    with Cons.prems have "rmatch r ([], drop 0 (c # cs)) = (g, snd m) # ms" by (cases m) auto
    then show ?thesis by blast
  qed
qed

lemma search_None: "search r s = None \<longleftrightarrow> (\<forall>k \<le> length s. rmatch r ([], drop k s) = [])"
proof (induction s)
  case Nil
  then show ?case by (auto split: list.splits)
next
  case (Cons c cs)
  have "(\<forall>k \<le> length (c # cs). rmatch r ([], drop k (c # cs)) = []) \<longleftrightarrow>
        rmatch r ([], c # cs) = [] \<and> (\<forall>k \<le> length cs. rmatch r ([], drop k cs) = [])"
    (is "?L \<longleftrightarrow> ?R")
  proof
    assume l: ?L
    have "rmatch r ([], drop 0 (c # cs)) = []" using l by blast
    moreover have "\<forall>k \<le> length cs. rmatch r ([], drop k cs) = []"
    proof (intro allI impI)
      fix k assume "k \<le> length cs"
      then have "rmatch r ([], drop (Suc k) (c # cs)) = []" using l by (metis Suc_le_mono length_Cons)
      then show "rmatch r ([], drop k cs) = []" by simp
    qed
    ultimately show ?R by simp
  next
    assume r: ?R
    show ?L
    proof (intro allI impI)
      fix k assume "k \<le> length (c # cs)"
      then show "rmatch r ([], drop k (c # cs)) = []" using r by (cases k) auto
    qed
  qed
  with Cons show ?case by (auto split: list.splits)
qed

lemma search_first:
  "rmatch r ([], s) = (g, rest) # ms \<Longrightarrow> search r s = Some g"
  by (cases s) auto

lemma take_len_diff: "take (length (x @ s') - length s') (x @ s') = x"
  by simp

lemma user_rx_mem:
  "(g', s') \<in> set (rmatch user_rx (g, s)) \<longleftrightarrow>
     (\<exists>u. is_user u \<and> s = u @ s' \<and> g' = (''user'', u) # g)" (is "?L \<longleftrightarrow> ?R")
proof
  assume ?L
  then obtain g1 s1 g2 s2 g3 where
    c: "g' = (''user'', take (length s - length s') s) # g3"
    and a1: "(g1, s1) \<in> set (rmatch (Plus Word) (g, s))"
    and a2: "(g2, s2) \<in> set (rmatch (Star NotAt) (g1, s1))"
    and a3: "(g3, s') \<in> set (rmatch (Lit ''@'') (g2, s2))"
    unfolding user_rx_def rmatch_Grp_mem rmatch_Cat_mem
    by blast
  from a1 obtain w where w: "g1 = g" "w \<noteq> []" "s = w @ s1" "\<forall>a\<in>set w. in_cls Word a"
    unfolding rmatch_Plus_mem by blast
  from a2 obtain y where y: "g2 = g1" "s1 = y @ s2" "\<forall>a\<in>set y. in_cls NotAt a"
    unfolding rmatch_Star_mem by blast
  from a3 have s2: "g3 = g2" "s2 = ''@'' @ s'" unfolding rmatch_Lit_mem by simp_all
  have s: "s = (w @ y @ ''@'') @ s'" using w y s2 by simp
  have "take (length s - length s') s = w @ y @ ''@''" unfolding s by (rule take_len_diff)
  moreover have "is_user (w @ y @ ''@'')" unfolding is_user_def using w y by auto
  ultimately show ?R using s c w(1) y(1) s2(1) by blast
next
  assume ?R
  then obtain u w y where u: "s = u @ s'" "g' = (''user'', u) # g" "u = w @ y @ ''@''"
    "w \<noteq> []" "\<forall>a\<in>set w. in_cls Word a" "CHR ''@'' \<notin> set y"
    unfolding is_user_def by blast
  have a1: "(g, y @ ''@'' @ s') \<in> set (rmatch (Plus Word) (g, s))"
    unfolding rmatch_Plus_mem using u by auto
  have a2: "(g, ''@'' @ s') \<in> set (rmatch (Star NotAt) (g, y @ ''@'' @ s'))"
    unfolding rmatch_Star_mem using u by auto
  have a3: "(g, s') \<in> set (rmatch (Lit ''@'') (g, ''@'' @ s'))"
    unfolding rmatch_Lit_mem by simp
  have "(g, s') \<in> set (rmatch (Cat (Plus Word) (Cat (Star NotAt) (Lit ''@''))) (g, s))"
    unfolding rmatch_Cat_mem using a1 a2 a3 by blast
  moreover have "take (length s - length s') s = u" unfolding u(1) by (rule take_len_diff)
  ultimately show ?L unfolding user_rx_def rmatch_Grp_mem using u(2) by blast
qed

lemma host_rx_mem:
  "(g', s') \<in> set (rmatch host_rx (g, s)) \<longleftrightarrow>
     (\<exists>h. is_host h \<and> s = h @ s' \<and> g' = (''host'', h) # g)" (is "?L \<longleftrightarrow> ?R")
proof
  assume ?L
  then obtain h where "s = h @ s'" "h \<noteq> []" "\<forall>a\<in>set h. in_cls HostCh a"
    "g' = (''host'', take (length s - length s') s) # g"
    unfolding host_rx_def rmatch_Grp_mem rmatch_Plus_mem by blast
  then show ?R unfolding is_host_def by (metis take_len_diff)
next
  assume ?R
  then obtain h where h: "is_host h" "s = h @ s'" "g' = (''host'', h) # g" by blast
  have "take (length s - length s') s = h" unfolding h(2) by (rule take_len_diff)
  then show ?L unfolding host_rx_def rmatch_Grp_mem rmatch_Plus_mem using h
    unfolding is_host_def by blast
qed

lemma path_rx_mem:
  "(g', s') \<in> set (rmatch path_rx (g, s)) \<longleftrightarrow>
     (\<exists>p. is_path p \<and> s = p @ s' \<and> g' = (''path'', p) # g)" (is "?L \<longleftrightarrow> ?R")
proof
  assume ?L
  then obtain g1 s1 g2 where
    c0: "g' = (''path'', take (length s - length s') s) # g2"
    and a1: "(g1, s1) \<in> set (rmatch (Star AnyCh) (g, s))"
    and a2: "(g2, s') \<in> set (rmatch (Lit ''.git'') (g1, s1))"
    unfolding path_rx_def rmatch_Grp_mem rmatch_Cat_mem
    by blast
  from a1 obtain x where x: "g1 = g" "s = x @ s1" "\<forall>a\<in>set x. in_cls AnyCh a"
    unfolding rmatch_Star_mem by blast
  from a2 have s1: "s1 = ''.git'' @ s'" and g2: "g2 = g1" unfolding rmatch_Lit_mem by simp_all
  have c: "g' = (''path'', take (length s - length s') s) # g1" using c0 g2 by simp
  have s: "s = (x @ ''.git'') @ s'" using x s1 by simp
  have "take (length s - length s') s = x @ ''.git''" unfolding s by (rule take_len_diff)
  moreover have "is_path (x @ ''.git'')" unfolding is_path_def using x by auto
  ultimately show ?R using s c x(1) by blast
next
  assume ?R
  then obtain p x where p: "s = p @ s'" "g' = (''path'', p) # g" "p = x @ ''.git''"
    "\<forall>a\<in>set x. a \<noteq> CHR 0x0A"
    unfolding is_path_def by blast
  have a1: "(g, ''.git'' @ s') \<in> set (rmatch (Star AnyCh) (g, s))"
    unfolding rmatch_Star_mem using p by auto
  have a2: "(g, s') \<in> set (rmatch (Lit ''.git'') (g, ''.git'' @ s'))"
    unfolding rmatch_Lit_mem by simp
  have "(g, s') \<in> set (rmatch (Cat (Star AnyCh) (Lit ''.git'')) (g, s))"
    unfolding rmatch_Cat_mem using a1 a2 by blast
  moreover have "take (length s - length s') s = p" unfolding p(1) by (rule take_len_diff)
  ultimately show ?L unfolding path_rx_def rmatch_Grp_mem using p(2) by blast
qed

lemma ssh_rx_mem:
  "(g', s') \<in> set (rmatch ssh_rx (g, s)) \<longleftrightarrow>
     (\<exists>u h p. is_user u \<and> is_host h \<and> is_path p \<and> s = u @ h @ '':'' @ p @ s' \<and>
        g' = [(''path'', p), (''host'', h), (''user'', u)] @ g)"
  unfolding ssh_rx_def rmatch_Cat_mem user_rx_mem host_rx_mem path_rx_mem rmatch_Lit_mem
  by (simp, blast)

lemma transport_rx_mem:
  "(g', s') \<in> set (rmatch (Grp ''transport'' (Cat (Plus Word) (Lit ''://''))) (g, s)) \<longleftrightarrow>
     (\<exists>t. is_transport t \<and> s = t @ s' \<and> g' = (''transport'', t) # g)" (is "?L \<longleftrightarrow> ?R")
proof
  assume ?L
  then obtain g1 s1 g2 where
    c0: "g' = (''transport'', take (length s - length s') s) # g2"
    and a1: "(g1, s1) \<in> set (rmatch (Plus Word) (g, s))"
    and a2: "(g2, s') \<in> set (rmatch (Lit ''://'') (g1, s1))"
    unfolding rmatch_Grp_mem rmatch_Cat_mem
    by blast
  from a1 obtain x where x: "g1 = g" "s = x @ s1" "x \<noteq> []" "\<forall>a\<in>set x. in_cls Word a"
    unfolding rmatch_Plus_mem by blast
  from a2 have s1: "s1 = ''://'' @ s'" and g2: "g2 = g1" unfolding rmatch_Lit_mem by simp_all
  have c: "g' = (''transport'', take (length s - length s') s) # g1" using c0 g2 by simp
  have s: "s = (x @ ''://'') @ s'" using x s1 by simp
  have "take (length s - length s') s = x @ ''://''" unfolding s by (rule take_len_diff)
  moreover have "is_transport (x @ ''://'')" unfolding is_transport_def using x by auto
  ultimately show ?R using s c x(1) by blast
next
  assume ?R
  then obtain p x where p: "s = p @ s'" "g' = (''transport'', p) # g" "p = x @ ''://''"
    "x \<noteq> []" "\<forall>a\<in>set x. in_cls Word a"
    unfolding is_transport_def by blast
  have a1: "(g, ''://'' @ s') \<in> set (rmatch (Plus Word) (g, s))"
    unfolding rmatch_Plus_mem using p by auto
  have a2: "(g, s') \<in> set (rmatch (Lit ''://'') (g, ''://'' @ s'))"
    unfolding rmatch_Lit_mem by simp
  have "(g, s') \<in> set (rmatch (Cat (Plus Word) (Lit ''://'')) (g, s))"
    unfolding rmatch_Cat_mem using a1 a2 by blast
  moreover have "take (length s - length s') s = p" unfolding p(1) by (rule take_len_diff)
  ultimately show ?L unfolding rmatch_Grp_mem using p(2) by blast
qed

lemma port_rx_mem:
  "(g', s') \<in> set (rmatch (Grp ''port'' (Cat (Lit '':'') (Plus Digit))) (g, s)) \<longleftrightarrow>
     (\<exists>t. is_port t \<and> s = t @ s' \<and> g' = (''port'', t) # g)" (is "?L \<longleftrightarrow> ?R")
proof
  assume ?L
  then obtain g1 s1 g2 where
    c0: "g' = (''port'', take (length s - length s') s) # g2"
    and a1: "(g1, s1) \<in> set (rmatch (Lit '':'') (g, s))"
    and a2: "(g2, s') \<in> set (rmatch (Plus Digit) (g1, s1))"
    unfolding rmatch_Grp_mem rmatch_Cat_mem
    by blast
  from a1 have s1: "g1 = g" "s = '':'' @ s1" unfolding rmatch_Lit_mem by simp_all
  from a2 obtain x where x: "s1 = x @ s'" "x \<noteq> []" "\<forall>a\<in>set x. in_cls Digit a" and g2: "g2 = g1"
    unfolding rmatch_Plus_mem by blast
  have c: "g' = (''port'', take (length s - length s') s) # g1" using c0 g2 by simp
  have s: "s = ('':'' @ x) @ s'" using x s1 by simp
  have "take (length s - length s') s = '':'' @ x" unfolding s by (rule take_len_diff)
  moreover have "is_port ('':'' @ x)" unfolding is_port_def using x by auto
  ultimately show ?R using s c s1(1) by blast
next
  assume ?R
  then obtain p x where p: "s = p @ s'" "g' = (''port'', p) # g" "p = '':'' @ x"
    "x \<noteq> []" "\<forall>a\<in>set x. is_digit a"
    unfolding is_port_def by blast
  have a1: "(g, x @ s') \<in> set (rmatch (Lit '':'') (g, s))"
    unfolding rmatch_Lit_mem using p by simp
  have a2: "(g, s') \<in> set (rmatch (Plus Digit) (g, x @ s'))"
    unfolding rmatch_Plus_mem using p by auto
  have "(g, s') \<in> set (rmatch (Cat (Lit '':'') (Plus Digit)) (g, s))"
    unfolding rmatch_Cat_mem using a1 a2 by blast
  moreover have "take (length s - length s') s = p" unfolding p(1) by (rule take_len_diff)
  ultimately show ?L unfolding rmatch_Grp_mem using p(2) by blast
qed

lemma is_user_nonempty: "is_user u \<Longrightarrow> u \<noteq> []"
  unfolding is_user_def by blast

lemma is_port_nonempty: "is_port u \<Longrightarrow> u \<noteq> []"
  unfolding is_port_def by blast

lemma grp_Cons: "grp ((n, v) # g) m = (if m = n then v else grp g m)"
  by (simp add: grp_def)

lemma opt_user_mem:
  assumes "(g', s') \<in> set (rmatch (Opt user_rx) (g, s))"
  shows "\<exists>u. (u = [] \<or> is_user u) \<and> s = u @ s' \<and>
           grp g' ''user'' = (if u = [] then grp g ''user'' else u) \<and>
           (\<forall>n. n \<noteq> ''user'' \<longrightarrow> grp g' n = grp g n)"
proof -
  from assms consider (present) u where "is_user u" "s = u @ s'" "g' = (''user'', u) # g"
    | (absent) "g' = g" "s' = s"
    unfolding rmatch_Opt_mem user_rx_mem by blast
  then show ?thesis
  proof cases
    case present
    then show ?thesis using is_user_nonempty[OF present(1)]
      by (intro exI[of _ u]) (simp add: grp_Cons)
  next
    case absent
    then show ?thesis by (intro exI[of _ "[]"]) simp
  qed
qed

lemma opt_port_mem:
  assumes "(g', s') \<in> set (rmatch (Opt (Grp ''port'' (Cat (Lit '':'') (Plus Digit)))) (g, s))"
  shows "\<exists>u. (u = [] \<or> is_port u) \<and> s = u @ s' \<and>
           grp g' ''port'' = (if u = [] then grp g ''port'' else u) \<and>
           (\<forall>n. n \<noteq> ''port'' \<longrightarrow> grp g' n = grp g n)"
proof -
  from assms consider (present) u where "is_port u" "s = u @ s'" "g' = (''port'', u) # g"
    | (absent) "g' = g" "s' = s"
    unfolding rmatch_Opt_mem port_rx_mem by blast
  then show ?thesis
  proof cases
    case present
    then show ?thesis using is_port_nonempty[OF present(1)]
      by (intro exI[of _ u]) (simp add: grp_Cons)
  next
    case absent
    then show ?thesis by (intro exI[of _ "[]"]) simp
  qed
qed

lemma url_rx_sound:
  assumes "(g', s') \<in> set (rmatch url_rx ([], s))"
  shows "\<exists>t u h po p. is_transport t \<and> (u = [] \<or> is_user u) \<and> is_host h \<and>
           (po = [] \<or> is_port po) \<and> is_path p \<and> s = t @ u @ h @ po @ ''/'' @ p @ s' \<and>
           grp g' ''transport'' = t \<and> grp g' ''user'' = u \<and> grp g' ''host'' = h \<and>
           grp g' ''port'' = po \<and> grp g' ''path'' = p"
proof -
  from assms obtain g1 s1 g2 s2 g3 s3 g4 s4 g5 s5 where
    a1: "(g1, s1) \<in> set (rmatch (Grp ''transport'' (Cat (Plus Word) (Lit ''://''))) ([], s))" and
    a2: "(g2, s2) \<in> set (rmatch (Opt user_rx) (g1, s1))" and
    a3: "(g3, s3) \<in> set (rmatch host_rx (g2, s2))" and
    a4: "(g4, s4) \<in> set (rmatch (Opt (Grp ''port'' (Cat (Lit '':'') (Plus Digit)))) (g3, s3))" and
    a5: "(g5, s5) \<in> set (rmatch (Lit ''/'') (g4, s4))" and
    a6: "(g', s') \<in> set (rmatch path_rx (g5, s5))"
    unfolding url_rx_def rmatch_Cat_mem by blast
  from a1 obtain t where t: "is_transport t" "s = t @ s1" "g1 = [(''transport'', t)]"
    unfolding transport_rx_mem by blast
  from opt_user_mem[OF a2] obtain u where u: "u = [] \<or> is_user u" "s1 = u @ s2"
    "grp g2 ''user'' = (if u = [] then grp g1 ''user'' else u)"
    "\<forall>n. n \<noteq> ''user'' \<longrightarrow> grp g2 n = grp g1 n" by blast
  from a3 obtain h where h: "is_host h" "s2 = h @ s3" "g3 = (''host'', h) # g2"
    unfolding host_rx_mem by blast
  from opt_port_mem[OF a4] obtain po where po: "po = [] \<or> is_port po" "s3 = po @ s4"
    "grp g4 ''port'' = (if po = [] then grp g3 ''port'' else po)"
    "\<forall>n. n \<noteq> ''port'' \<longrightarrow> grp g4 n = grp g3 n" by blast
  from a5 have s4: "s4 = ''/'' @ s5" "g5 = g4" unfolding rmatch_Lit_mem by auto
  from a6 obtain p where p: "is_path p" "s5 = p @ s'" "g' = (''path'', p) # g5"
    unfolding path_rx_mem by blast
  have g1u: "grp g1 ''user'' = []" "grp g1 ''transport'' = t" using t by (simp_all add: grp_def)
  have g2: "grp g2 ''user'' = u" "grp g2 ''transport'' = t" using u g1u by auto
  have g3: "grp g3 ''user'' = u" "grp g3 ''transport'' = t" "grp g3 ''host'' = h" "grp g3 ''port'' = []"
    using h g2 u(4) t(3) by (simp_all add: grp_def)
  have g4: "grp g4 ''user'' = u" "grp g4 ''transport'' = t" "grp g4 ''host'' = h" "grp g4 ''port'' = po"
    using po g3 by auto
  have g': "grp g' ''user'' = u" "grp g' ''transport'' = t" "grp g' ''host'' = h" "grp g' ''port'' = po"
    "grp g' ''path'' = p"
    using p(3) s4(2) g4 by (simp_all add: grp_def)
  have "s = t @ u @ h @ po @ ''/'' @ p @ s'" using t u h po s4 p by simp
  with t(1) u(1) h(1) po(1) p(1) g' show ?thesis by blast
qed

lemma ssh_rx_sound:
  assumes "(g', s') \<in> set (rmatch ssh_rx ([], s))"
  shows "\<exists>u h p. is_user u \<and> is_host h \<and> is_path p \<and> s = u @ h @ '':'' @ p @ s' \<and>
           grp g' ''user'' = u \<and> grp g' ''host'' = h \<and> grp g' ''path'' = p"
  using assms unfolding ssh_rx_mem by (auto simp: grp_Cons)

lemma parts_shape:
  assumes "parts u = Inr i"
  shows "is_host (host i) \<and> is_path (path i)"
proof (cases "search url_rx u")
  case (Some g)
  from search_Some[OF Some] obtain k rest ms where "rmatch url_rx ([], drop k u) = (g, rest) # ms" by blast
  then have "(g, rest) \<in> set (rmatch url_rx ([], drop k u))" by simp
  from url_rx_sound[OF this] have "is_host (grp g ''host'') \<and> is_path (grp g ''path'')" by blast
  moreover have "host i = grp g ''host''" "path i = grp g ''path''"
    using assms Some by (auto simp: parts_def)
  ultimately show ?thesis by simp
next
  case None
  show ?thesis
  proof (cases "search ssh_rx u")
    case (Some g)
    from search_Some[OF Some] obtain k rest ms where "rmatch ssh_rx ([], drop k u) = (g, rest) # ms" by blast
    then have "(g, rest) \<in> set (rmatch ssh_rx ([], drop k u))" by simp
    from ssh_rx_sound[OF this] have "is_host (grp g ''host'') \<and> is_path (grp g ''path'')" by blast
    moreover have "host i = grp g ''host''" "path i = grp g ''path''"
      using assms Some None by (auto simp: parts_def)
    ultimately show ?thesis by simp
  next
    case None2: None
    with None assms show ?thesis by (simp add: parts_def)
  qed
qed

subsection \<open>The first match\<close>

lemma fm_Lit: "fm (Lit l) (g, l @ s) (g, s)"
  by (simp add: fm_def)

lemma fm_Cat: "fm r1 gs m \<Longrightarrow> fm r2 m m' \<Longrightarrow> fm (Cat r1 r2) gs m'"
  by (cases gs) (auto simp: fm_def)

lemma fm_Grp:
  "fm r (g, s) (g', s') \<Longrightarrow> fm (Grp n r) (g, s) ((n, take (length s - length s') s) # g', s')"
  by (auto simp: fm_def)

lemma fm_Opt_present: "fm r gs m \<Longrightarrow> fm (Opt r) gs m"
  by (cases gs) (auto simp: fm_def)

lemma fm_Opt_absent: "rmatch r (g, s) = [] \<Longrightarrow> fm (Opt r) (g, s) (g, s)"
  by (simp add: fm_def)

lemma runs_stop: "(case r of [] \<Rightarrow> True | c # _ \<Rightarrow> \<not> P c) \<Longrightarrow> runs P r = [r]"
  by (cases r) auto

lemma runs_append_all:
  "\<forall>a\<in>set x. P a \<Longrightarrow> \<exists>rest. runs P (x @ r) = runs P r @ rest \<and> length rest = length x"
proof (induction x)
  case Nil
  then show ?case by simp
next
  case (Cons a x)
  then obtain rest where "runs P (x @ r) = runs P r @ rest" "length rest = length x" by auto
  then have "runs P ((a # x) @ r) = runs P r @ (rest @ [a # x @ r]) \<and>
      length (rest @ [a # x @ r]) = length (a # x)"
    using Cons.prems by simp
  then show ?case by blast
qed

lemma fm_Plus:
  assumes "x \<noteq> []" "\<forall>a\<in>set x. in_cls c a" "case r of [] \<Rightarrow> True | b # _ \<Rightarrow> \<not> in_cls c b"
  shows "fm (Plus c) (g, x @ r) (g, r)"
proof -
  from runs_append_all[OF assms(2), of r] obtain rest where
    r: "runs (in_cls c) (x @ r) = runs (in_cls c) r @ rest" "length rest = length x" by blast
  have "rest \<noteq> []" using r(2) assms(1) by auto
  then have "butlast (runs (in_cls c) (x @ r)) = r # butlast rest"
    using r(1) runs_stop[OF assms(3)] by (simp add: butlast_append)
  then show ?thesis by (simp add: fm_def)
qed

lemma fm_path:
  assumes "is_path p"
  shows "fm path_rx (g, p) ((''path'', p) # g, [])"
proof -
  from assms obtain x where x: "\<forall>a\<in>set x. a \<noteq> CHR 0x0A" "p = x @ ''.git''"
    unfolding is_path_def by blast
  then have "\<forall>a\<in>set x. in_cls AnyCh a" by simp
  from runs_append_all[OF this, of "''.git''"] obtain rest where
    "runs (in_cls AnyCh) (x @ ''.git'') = runs (in_cls AnyCh) ''.git'' @ rest" by blast
  then have "\<exists>ms. rmatch (Cat (Star AnyCh) (Lit ''.git'')) (g, p) = (g, []) # ms"
    using x(2) by simp
  then have "fm (Cat (Star AnyCh) (Lit ''.git'')) (g, p) (g, [])" by (simp add: fm_def)
  from fm_Grp[OF this, of "''path''"] show ?thesis by (simp add: path_rx_def)
qed

lemma fm_host:
  assumes "is_host h" "case r of [] \<Rightarrow> True | b # _ \<Rightarrow> \<not> in_cls HostCh b"
  shows "fm host_rx (g, h @ r) ((''host'', h) # g, r)"
proof -
  have "fm (Plus HostCh) (g, h @ r) (g, r)"
    using assms by (intro fm_Plus) (simp_all add: is_host_def)
  from fm_Grp[OF this, of "''host''"] show ?thesis by (simp add: host_rx_def)
qed

lemma fm_user_git: "fm user_rx (g, ''git@'' @ t) ((''user'', ''git@'') # g, t)"
  by (simp add: fm_def user_rx_def is_lower_def is_upper_def is_digit_def)

lemma fm_search: "fm r ([], s) (g, rest) \<Longrightarrow> search r s = Some g"
  unfolding fm_def using search_first by blast

lemma cls_facts:
  "\<not> in_cls HostCh CHR '':''" "\<not> in_cls HostCh CHR ''/''" "\<not> in_cls HostCh CHR ''@''"
  "\<not> in_cls Word CHR '':''"
  by (simp_all add: is_lower_def is_upper_def is_digit_def)

lemma fm_ssh_git:
  assumes "is_host h" "is_path p"
  shows "fm ssh_rx ([], ''git@'' @ h @ '':'' @ p) ([(''path'', p), (''host'', h), (''user'', ''git@'')], [])"
proof -
  have a: "fm user_rx ([], ''git@'' @ h @ '':'' @ p) ([(''user'', ''git@'')], h @ '':'' @ p)"
    by (rule fm_user_git)
  have b: "fm host_rx ([(''user'', ''git@'')], h @ '':'' @ p)
             ([(''host'', h), (''user'', ''git@'')], '':'' @ p)"
    using assms(1) cls_facts by (intro fm_host) simp_all
  have c: "fm (Lit '':'') ([(''host'', h), (''user'', ''git@'')], '':'' @ p)
             ([(''host'', h), (''user'', ''git@'')], p)"
    by (rule fm_Lit)
  have d: "fm path_rx ([(''host'', h), (''user'', ''git@'')], p)
             ([(''path'', p), (''host'', h), (''user'', ''git@'')], [])"
    using assms(2) by (rule fm_path)
  show ?thesis unfolding ssh_rx_def by (intro fm_Cat[OF a] fm_Cat[OF b] fm_Cat[OF c] d)
qed

lemma url_no_match_git_prefix:
  "rmatch url_rx ([], ''git@'' @ t) = []" "rmatch url_rx ([], ''it@'' @ t) = []"
  "rmatch url_rx ([], ''t@'' @ t) = []" "rmatch url_rx ([], ''@'' @ t) = []"
  by (simp_all add: url_rx_def is_lower_def is_upper_def is_digit_def)

lemma search_None_sub:
  assumes "search r u = None" "u = a @ b @ c"
  shows "search r b = None"
proof -
  have "rmatch r ([], drop j b) = []" if j: "j \<le> length b" for j
  proof (rule ccontr)
    assume "rmatch r ([], drop j b) \<noteq> []"
    then obtain g s where "(g, s) \<in> set (rmatch r ([], drop j b))"
      by (cases "rmatch r ([], drop j b)") auto
    from rmatch_mono[OF this, of c] have m: "(g, s @ c) \<in> set (rmatch r ([], drop j b @ c))" .
    have "drop (length a + j) u = drop j b @ c" using assms(2) j by simp
    moreover have "length a + j \<le> length u" using assms(2) j by simp
    ultimately have "rmatch r ([], drop j b @ c) = []"
      using assms(1) unfolding search_None by metis
    with m show False by simp
  qed
  then show ?thesis unfolding search_None by blast
qed

lemma search_url_git: "search url_rx (''git@'' @ t) = search url_rx t"
  using url_no_match_git_prefix[of t] by simp

lemma user_rx_no_at: "CHR ''@'' \<notin> set s \<Longrightarrow> rmatch user_rx (g, s) = []"
proof (rule ccontr)
  assume a: "CHR ''@'' \<notin> set s" and "rmatch user_rx (g, s) \<noteq> []"
  then obtain g' s' where "(g', s') \<in> set (rmatch user_rx (g, s))"
    by (cases "rmatch user_rx (g, s)") auto
  then obtain u where "is_user u" "s = u @ s'" unfolding user_rx_mem by blast
  then show False using a unfolding is_user_def by auto
qed

lemma is_host_chars: "is_host h \<Longrightarrow> CHR ''@'' \<notin> set h \<and> CHR ''/'' \<notin> set h \<and> CHR '':'' \<notin> set h"
  unfolding is_host_def using cls_facts by blast

lemma dslash:
  "CHR ''/'' \<notin> set h \<Longrightarrow> c \<noteq> CHR ''/'' \<Longrightarrow> h @ c # p = a @ ''//'' @ z \<Longrightarrow> sublist ''//'' p"
proof (induction h arbitrary: a)
  case Nil
  then show ?case by (cases a) (auto simp: sublist_def)
next
  case (Cons x h)
  show ?case
  proof (cases a)
    case Nil
    with Cons.prems show ?thesis by simp
  next
    case (Cons y a')
    with Cons.prems Cons.IH[of a'] show ?thesis by simp
  qed
qed

lemma no_url_in_host_path:
  assumes "is_host h" "\<not> sublist ''//'' p"
  shows "search url_rx (h @ '':'' @ p) = None"
proof -
  have "rmatch url_rx ([], drop j (h @ '':'' @ p)) = []" for j
  proof (rule ccontr)
    assume "rmatch url_rx ([], drop j (h @ '':'' @ p)) \<noteq> []"
    then obtain g s where "(g, s) \<in> set (rmatch url_rx ([], drop j (h @ '':'' @ p)))"
      by (cases "rmatch url_rx ([], drop j (h @ '':'' @ p))") auto
    from url_rx_sound[OF this] obtain t rest where t: "is_transport t"
      "drop j (h @ '':'' @ p) = t @ rest" by blast
    then obtain w where "t = w @ ''://''" unfolding is_transport_def by blast
    with t have "h @ CHR '':'' # p = (take j (h @ '':'' @ p) @ w @ '':'') @ ''//'' @ rest"
      by (metis append.assoc append_Cons append_Nil append_take_drop_id)
    from dslash[OF _ _ this] is_host_chars[OF assms(1)] have "sublist ''//'' p" by simp
    with assms(2) show False by simp
  qed
  then show ?thesis unfolding search_None by blast
qed

lemma reparse_ssh:
  assumes "is_host h" "is_path p" "search url_rx (h @ '':'' @ p) = None"
  shows "parts (''git@'' @ h @ '':'' @ p) =
           Inr \<lparr>syntax_kind = ''ssh'', host = h, user = ''git@'', port = [], path = p, transport = []\<rparr>"
proof -
  have a: "search url_rx (''git@'' @ h @ '':'' @ p) = None"
    using assms(3) by (simp only: search_url_git)
  have b: "search ssh_rx (''git@'' @ h @ '':'' @ p) =
      Some [(''path'', p), (''host'', h), (''user'', ''git@'')]"
    by (rule fm_search[OF fm_ssh_git[OF assms(1,2)]])
  show ?thesis unfolding parts_def a b by (simp add: grp_Cons)
qed

lemma fm_url_plain:
  assumes pr: "pr \<noteq> []" "\<forall>a\<in>set pr. in_cls Word a"
    and h: "is_host h" and p: "is_path p" "CHR ''@'' \<notin> set p"
  shows "fm url_rx ([], pr @ ''://'' @ h @ ''/'' @ p)
           ([(''path'', p), (''host'', h), (''transport'', pr @ ''://'')], [])"
proof -
  let ?R = "h @ ''/'' @ p"
  let ?g1 = "[(''transport'', pr @ ''://'')]"
  let ?g2 = "(''host'', h) # ?g1"
  have "fm (Plus Word) ([], pr @ ''://'' @ ?R) ([], ''://'' @ ?R)"
    using pr cls_facts by (intro fm_Plus) simp_all
  from fm_Cat[OF this fm_Lit]
  have "fm (Cat (Plus Word) (Lit ''://'')) ([], pr @ ''://'' @ ?R) ([], ?R)" .
  from fm_Grp[OF this, of "''transport''"]
  have a: "fm (Grp ''transport'' (Cat (Plus Word) (Lit ''://''))) ([], pr @ ''://'' @ ?R) (?g1, ?R)"
    by simp
  have "CHR ''@'' \<notin> set ?R" using is_host_chars[OF h] p(2) by simp
  from fm_Opt_absent[OF user_rx_no_at[OF this]]
  have b: "fm (Opt user_rx) (?g1, ?R) (?g1, ?R)" .
  have c: "fm host_rx (?g1, ?R) (?g2, ''/'' @ p)"
    using h cls_facts by (intro fm_host) simp_all
  have "rmatch (Grp ''port'' (Cat (Lit '':'') (Plus Digit))) (?g2, ''/'' @ p) = []"
    by simp
  from fm_Opt_absent[OF this]
  have d: "fm (Opt (Grp ''port'' (Cat (Lit '':'') (Plus Digit)))) (?g2, ''/'' @ p) (?g2, ''/'' @ p)" .
  have e: "fm (Lit ''/'') (?g2, ''/'' @ p) (?g2, p)" by (rule fm_Lit)
  have f: "fm path_rx (?g2, p) ((''path'', p) # ?g2, [])" using p(1) by (rule fm_path)
  show ?thesis unfolding url_rx_def
    by (intro fm_Cat[OF a] fm_Cat[OF b] fm_Cat[OF c] fm_Cat[OF d] fm_Cat[OF e] f)
qed

lemma reparse_url:
  assumes pr: "pr \<noteq> []" "\<forall>a\<in>set pr. in_cls Word a"
    and h: "is_host h" and p: "is_path p" "CHR ''@'' \<notin> set p"
  shows "parts (pr @ ''://'' @ h @ ''/'' @ p) =
           Inr \<lparr>syntax_kind = ''url'', host = h, user = [], port = [], path = p,
                transport = pr @ ''://''\<rparr>"
  unfolding parts_def fm_search[OF fm_url_plain[OF assms]]
  by (simp add: grp_Cons) (simp add: grp_def)

lemma parts_ssh_decomp:
  assumes "parts u = Inr i" "syntax_kind i = ''ssh''"
  shows "search url_rx (host i @ '':'' @ path i) = None"
proof -
  have n: "search url_rx u = None"
    using assms by (cases "search url_rx u") (auto simp: parts_def)
  then obtain g where g: "search ssh_rx u = Some g" "host i = grp g ''host''" "path i = grp g ''path''"
    using assms by (cases "search ssh_rx u") (auto simp: parts_def)
  from search_Some[OF g(1)] obtain k rest ms where
    "rmatch ssh_rx ([], drop k u) = (g, rest) # ms" by blast
  then have "(g, rest) \<in> set (rmatch ssh_rx ([], drop k u))" by simp
  from ssh_rx_sound[OF this] obtain usr where
    "drop k u = usr @ grp g ''host'' @ '':'' @ grp g ''path'' @ rest" by blast
  then have "u = (take k u @ usr) @ (host i @ '':'' @ path i) @ rest"
    using g(2,3) by (metis append.assoc append_take_drop_id)
  from search_None_sub[OF n this] show ?thesis .
qed

section \<open>Re-rendering a URL\<close>

text \<open>
  Claim C7. \<open>format\<close> with protocol \<open>https\<close> turns the ssh-syntax URL
  \<open>git@host:group/name.git\<close> into \<open>https://host/group/name.git\<close>, and with
  protocol \<open>ssh\<close> turns the url-syntax URL back into \<open>git@host:group/name.git\<close>.
  The ssh form is always \<open>git@\<close>, the host, a colon and the path (whatever user and
  port the URL had); every other protocol gives protocol, \<open>://\<close>, host, slash and
  path, with no user.
\<close>

theorem format_rerender:
  "format ''git@host:group/name.git'' ''https'' = Inr ''https://host/group/name.git'' \<and>
   format ''https://host/group/name.git'' ''ssh'' = Inr ''git@host:group/name.git'' \<and>
   format ''https://bob@host:8080/group/name.git'' ''ssh'' = Inr ''git@host:group/name.git'' \<and>
   format ''bob@host:group/name.git'' ''https'' = Inr ''https://host/group/name.git'' \<and>
   (\<forall>u i. parts u = Inr i \<longrightarrow>
      format u ''ssh'' = Inr (''git@'' @ host i @ '':'' @ path i)) \<and>
   (\<forall>u i protocol. parts u = Inr i \<longrightarrow> protocol \<noteq> ''ssh'' \<longrightarrow>
      format u protocol = Inr (protocol @ ''://'' @ host i @ ''/'' @ path i))"
proof (intro conjI allI impI)
  show "format ''git@host:group/name.git'' ''https'' = Inr ''https://host/group/name.git''"
    by code_simp
  show "format ''https://host/group/name.git'' ''ssh'' = Inr ''git@host:group/name.git''"
    by code_simp
  show "format ''https://bob@host:8080/group/name.git'' ''ssh'' = Inr ''git@host:group/name.git''"
    by code_simp
  show "format ''bob@host:group/name.git'' ''https'' = Inr ''https://host/group/name.git''"
    by code_simp
next
  fix u i assume "parts u = Inr i"
  then show "format u ''ssh'' = Inr (''git@'' @ host i @ '':'' @ path i)"
    by (simp add: format_def)
next
  fix u i protocol assume "parts u = Inr i" "protocol \<noteq> ''ssh''"
  then show "format u protocol = Inr (protocol @ ''://'' @ host i @ ''/'' @ path i)"
    by (simp add: format_def)
qed

lemma parts_example_port:
  "parts ''ssh://bob@host:22/x.git'' =
     Inr \<lparr>syntax_kind = ''url'', host = ''host'', user = ''bob@'', port = '':22'',
          path = ''x.git'', transport = ''ssh://''\<rparr>"
  by code_simp

theorem format_rerender_witness:
  "parts ''ssh://bob@host:22/x.git'' =
     Inr \<lparr>syntax_kind = ''url'', host = ''host'', user = ''bob@'', port = '':22'',
          path = ''x.git'', transport = ''ssh://''\<rparr> \<and>
   format ''ssh://bob@host:22/x.git'' ''ssh'' = Inr ''git@host:x.git'' \<and>
   format ''ssh://bob@host:22/x.git'' ''http'' = Inr ''http://host/x.git''"
  using format_rerender parts_example_port by simp

text \<open>
  Claim C10. A host is a non-empty run of lowercase letters, digits, underscores, dots and
  hyphens, so the URLs \<open>git@Host.com:path.git\<close> and \<open>https://Host.com/path.git\<close>,
  well formed but for the capital letter, match neither pattern and \<open>parts\<close> raises
  the invalid-URL error.
\<close>

theorem parts_rejects_uppercase_host:
  "parts ''git@Host.com:path.git'' = Inl (InvalidURL ''git@Host.com:path.git'') \<and>
   parts ''https://Host.com/path.git'' = Inl (InvalidURL ''https://Host.com/path.git'') \<and>
   (\<forall>u i c. parts u = Inr i \<longrightarrow> host i \<noteq> [] \<and>
      (c \<in> set (host i) \<longrightarrow>
         is_lower c \<or> is_digit c \<or> c = CHR ''_'' \<or> c = CHR ''.'' \<or> c = CHR ''-''))"
proof (intro conjI allI impI)
  show "parts ''git@Host.com:path.git'' = Inl (InvalidURL ''git@Host.com:path.git'')"
    by code_simp
  show "parts ''https://Host.com/path.git'' = Inl (InvalidURL ''https://Host.com/path.git'')"
    by code_simp
next
  fix u i c assume "parts u = Inr i"
  from parts_shape[OF this] show "host i \<noteq> []" by (simp add: is_host_def)
next
  fix u i c assume "parts u = Inr i" "c \<in> set (host i)"
  with parts_shape[of u i]
  show "is_lower c \<or> is_digit c \<or> c = CHR ''_'' \<or> c = CHR ''.'' \<or> c = CHR ''-''"
    by (auto simp: is_host_def)
qed

lemma parts_example_lower:
  "parts ''git@host.com:path.git'' =
     Inr \<lparr>syntax_kind = ''ssh'', host = ''host.com'', user = ''git@'', port = [],
          path = ''path.git'', transport = []\<rparr>"
  by code_simp

theorem parts_rejects_uppercase_host_witness:
  "parts ''git@host.com:path.git'' =
     Inr \<lparr>syntax_kind = ''ssh'', host = ''host.com'', user = ''git@'', port = [],
          path = ''path.git'', transport = []\<rparr> \<and>
   CHR ''h'' \<in> set ''host.com'' \<and>
   (is_lower CHR ''h'' \<or> is_digit CHR ''h'' \<or> CHR ''h'' = CHR ''_'' \<or> CHR ''h'' = CHR ''.''
      \<or> CHR ''h'' = CHR ''-'') \<and>
   parts ''git@Host.com:path.git'' = Inl (InvalidURL ''git@Host.com:path.git'')"
proof -
  let ?i = "\<lparr>syntax_kind = ''ssh'', host = ''host.com'', user = ''git@'', port = [],
          path = ''path.git'', transport = []\<rparr>"
  have m: "CHR ''h'' \<in> set (host ?i)" by simp
  have a: "parts ''git@Host.com:path.git'' = Inl (InvalidURL ''git@Host.com:path.git'')"
    by (rule parts_rejects_uppercase_host[THEN conjunct1])
  note u = parts_rejects_uppercase_host[THEN conjunct2, THEN conjunct2, rule_format,
      OF parts_example_lower, THEN conjunct2, rule_format, OF m]
  from a u parts_example_lower show ?thesis by simp
qed

text \<open>
  Claim C8, as amended. Round trip: a URL that parses under the ssh syntax, rendered with
  protocol \<open>ssh\<close> and parsed again, has the same host and path. Idempotence: rendering
  twice with \<open>ssh\<close> gives the same string as rendering once when the URL parsed under
  the ssh syntax or its path contains no \<open>//\<close>; rendering twice with another protocol
  made of one or more word characters (\<open>https\<close>, \<open>http\<close>) gives the same string
  as rendering once when the path contains no \<open>@\<close>.
\<close>

theorem format_roundtrip_idempotent:
  assumes "parts u = Inr i"
  shows "(syntax_kind i = ''ssh'' \<longrightarrow>
            (\<exists>f i'. format u ''ssh'' = Inr f \<and> parts f = Inr i' \<and>
               host i' = host i \<and> path i' = path i)) \<and>
         (syntax_kind i = ''ssh'' \<or> \<not> sublist ''//'' (path i) \<longrightarrow>
            (\<exists>f. format u ''ssh'' = Inr f \<and> format f ''ssh'' = Inr f)) \<and>
         (pr \<noteq> [] \<and> (\<forall>a\<in>set pr. in_cls Word a) \<and> pr \<noteq> ''ssh'' \<and>
            CHR ''@'' \<notin> set (path i) \<longrightarrow>
            (\<exists>f. format u pr = Inr f \<and> format f pr = Inr f))"
proof -
  from parts_shape[OF assms] have h: "is_host (host i)" and p: "is_path (path i)" by simp_all
  let ?f = "''git@'' @ host i @ '':'' @ path i"
  have f: "format u ''ssh'' = Inr ?f" using assms by (simp add: format_def)
  have re: "parts ?f = Inr \<lparr>syntax_kind = ''ssh'', host = host i, user = ''git@'', port = [],
              path = path i, transport = []\<rparr>"
    if "syntax_kind i = ''ssh'' \<or> \<not> sublist ''//'' (path i)"
  proof -
    have "search url_rx (host i @ '':'' @ path i) = None"
      using that parts_ssh_decomp[OF assms] no_url_in_host_path[OF h] by blast
    from reparse_ssh[OF h p this] show ?thesis .
  qed
  have one: "syntax_kind i = ''ssh'' \<longrightarrow>
            (\<exists>f i'. format u ''ssh'' = Inr f \<and> parts f = Inr i' \<and>
               host i' = host i \<and> path i' = path i)"
  proof
    assume "syntax_kind i = ''ssh''"
    then have "parts ?f = Inr \<lparr>syntax_kind = ''ssh'', host = host i, user = ''git@'', port = [],
              path = path i, transport = []\<rparr>" using re by blast
    with f show "\<exists>f i'. format u ''ssh'' = Inr f \<and> parts f = Inr i' \<and>
               host i' = host i \<and> path i' = path i" by simp
  qed
  have two: "syntax_kind i = ''ssh'' \<or> \<not> sublist ''//'' (path i) \<longrightarrow>
            (\<exists>f. format u ''ssh'' = Inr f \<and> format f ''ssh'' = Inr f)"
  proof
    assume "syntax_kind i = ''ssh'' \<or> \<not> sublist ''//'' (path i)"
    from re[OF this] have "format ?f ''ssh'' = Inr ?f" by (simp add: format_def)
    with f show "\<exists>f. format u ''ssh'' = Inr f \<and> format f ''ssh'' = Inr f" by simp
  qed
  have three: "pr \<noteq> [] \<and> (\<forall>a\<in>set pr. in_cls Word a) \<and> pr \<noteq> ''ssh'' \<and>
            CHR ''@'' \<notin> set (path i) \<longrightarrow>
            (\<exists>f. format u pr = Inr f \<and> format f pr = Inr f)"
  proof
    assume a: "pr \<noteq> [] \<and> (\<forall>a\<in>set pr. in_cls Word a) \<and> pr \<noteq> ''ssh'' \<and>
            CHR ''@'' \<notin> set (path i)"
    let ?t = "pr @ ''://'' @ host i @ ''/'' @ path i"
    have t: "format u pr = Inr ?t" using assms a by (simp add: format_def)
    have "parts ?t = Inr \<lparr>syntax_kind = ''url'', host = host i, user = [], port = [],
              path = path i, transport = pr @ ''://''\<rparr>"
      using a by (intro reparse_url h p) simp_all
    then have "format ?t pr = Inr ?t" using a by (simp add: format_def)
    with t show "\<exists>f. format u pr = Inr f \<and> format f pr = Inr f" by simp
  qed
  from one two three show ?thesis by blast
qed

lemma parts_example_ssh:
  "parts ''git@host:group/name.git'' =
     Inr \<lparr>syntax_kind = ''ssh'', host = ''host'', user = ''git@'', port = [],
          path = ''group/name.git'', transport = []\<rparr>"
  by code_simp

lemma example_side_conditions:
  "\<not> sublist ''//'' ''group/name.git''" "\<forall>a\<in>set ''https''. in_cls Word a"
  by (simp_all add: sublist_code is_lower_def is_upper_def is_digit_def)

theorem format_roundtrip_idempotent_witness:
  "parts ''git@host:group/name.git'' =
     Inr \<lparr>syntax_kind = ''ssh'', host = ''host'', user = ''git@'', port = [],
          path = ''group/name.git'', transport = []\<rparr> \<and>
   format ''git@host:group/name.git'' ''ssh'' = Inr ''git@host:group/name.git'' \<and>
   (\<exists>f. format ''git@host:group/name.git'' ''https'' = Inr f \<and> format f ''https'' = Inr f)"
proof -
  note t = format_roundtrip_idempotent[OF parts_example_ssh, of "''https''"]
  have "\<exists>f. format ''git@host:group/name.git'' ''https'' = Inr f \<and> format f ''https'' = Inr f"
    using t example_side_conditions by simp
  moreover have "format ''git@host:group/name.git'' ''ssh'' = Inr ''git@host:group/name.git''"
    using parts_example_ssh by (simp add: format_def)
  ultimately show ?thesis using parts_example_ssh by blast
qed

text \<open>
  Without these side conditions the second rendering can differ from the first: a path
  holding \<open>://\<close> makes the ssh form parse under the url syntax, and a path holding
  \<open>@\<close> makes the transport form parse with a user.
\<close>

theorem format_not_idempotent:
  "format ''https://host/a://b/c.git'' ''ssh'' = Inr ''git@host:a://b/c.git'' \<and>
   format ''git@host:a://b/c.git'' ''ssh'' = Inr ''git@b:c.git'' \<and>
   format ''git@host:a@b/c.git'' ''https'' = Inr ''https://host/a@b/c.git'' \<and>
   format ''https://host/a@b/c.git'' ''https'' = Inr ''https://b/c.git''"
proof (intro conjI)
  show "format ''https://host/a://b/c.git'' ''ssh'' = Inr ''git@host:a://b/c.git''" by code_simp
  show "format ''git@host:a://b/c.git'' ''ssh'' = Inr ''git@b:c.git''" by code_simp
  show "format ''git@host:a@b/c.git'' ''https'' = Inr ''https://host/a@b/c.git''" by code_simp
  show "format ''https://host/a@b/c.git'' ''https'' = Inr ''https://b/c.git''" by code_simp
qed


section \<open>Dry runs change nothing\<close>

lemma pres_return: "pres I (return a)"
  by (simp add: pres_def return_def)

lemma pres_raise: "pres I (raise e)"
  by (simp add: pres_def raise_def)

lemma pres_get_repo: "pres I get_repo"
  by (simp add: pres_def get_repo_def)

lemma pres_path_exists: "pres I (path_exists p)"
  by (simp add: pres_def path_exists_def)

lemma pres_pygit: "pres I pygit"
  by (simp add: pres_def pygit_def split: node.splits)

lemma pres_bind: "pres I m \<Longrightarrow> (\<And>a. pres I (f a)) \<Longrightarrow> pres I (bind m f)"
proof (unfold pres_def, intro allI impI)
  fix s assume m: "\<forall>s. I s \<longrightarrow> I (snd (m s))" and f: "\<And>a. \<forall>s. I s \<longrightarrow> I (snd (f a s))"
    and i: "I s"
  obtain x s' where ms: "m s = (x, s')" by (cases "m s")
  with m i have i': "I s'" by (metis snd_conv)
  show "I (snd (bind m f s))"
  proof (cases x)
    case (Inl e)
    with ms i' show ?thesis by (simp add: bind_def)
  next
    case (Inr a)
    with ms f[of a, rule_format, OF i'] show ?thesis by (simp add: bind_def)
  qed
qed

lemma pres_try_else:
  "pres I m \<Longrightarrow> (\<And>e. pres I (h e)) \<Longrightarrow> (\<And>a. pres I (f a)) \<Longrightarrow> pres I (try_else m p h f)"
proof (unfold pres_def, intro allI impI)
  fix s assume m: "\<forall>s. I s \<longrightarrow> I (snd (m s))" and f: "\<And>a. \<forall>s. I s \<longrightarrow> I (snd (f a s))"
    and h: "\<And>e. \<forall>s. I s \<longrightarrow> I (snd (h e s))" and i: "I s"
  obtain x s' where ms: "m s = (x, s')" by (cases "m s")
  with m i have i': "I s'" by (metis snd_conv)
  show "I (snd (try_else m p h f s))"
  proof (cases x)
    case (Inl e)
    with ms i' h[of e, rule_format, OF i'] show ?thesis by (simp add: try_else_def)
  next
    case (Inr a)
    with ms f[of a, rule_format, OF i'] show ?thesis by (simp add: try_else_def)
  qed
qed

lemma pres_catch: "pres I m \<Longrightarrow> (\<And>e. pres I (h e)) \<Longrightarrow> pres I (catch m p h)"
  unfolding catch_def by (intro pres_try_else pres_return)

lemma pres_if: "(c \<Longrightarrow> pres I a) \<Longrightarrow> (\<not> c \<Longrightarrow> pres I b) \<Longrightarrow> pres I (if c then a else b)"
  by simp

lemma pres_case_option:
  "pres I a \<Longrightarrow> (\<And>x. pres I (b x)) \<Longrightarrow> pres I (case v of None \<Rightarrow> a | Some x \<Rightarrow> b x)"
  by (cases v) simp_all

lemma pres_case_prod: "(\<And>x y. pres I (f x y)) \<Longrightarrow> pres I (case v of (x, y) \<Rightarrow> f x y)"
  by (cases v) simp

lemma pres_case_prod3:
  "(\<And>x y z. pres I (f x y z)) \<Longrightarrow> pres I (case v of (x, y, z) \<Rightarrow> f x y z)"
  by (cases v) auto

lemma pres_remotes_getitem: "pres I (remotes_getitem n)"
  unfolding remotes_getitem_def
  by (intro pres_bind pres_pygit pres_case_option pres_raise pres_return)

lemma pres_remote_exists: "pres I (remote_exists n)"
  unfolding remote_exists_def
  by (intro pres_bind pres_pygit pres_case_option pres_raise pres_return)

lemma pres_remote_refs: "pres I (remote_refs n)"
  unfolding remote_refs_def
  by (intro pres_bind pres_pygit pres_case_option pres_raise pres_return)

lemma pres_remote_urls: "pres I (remote_urls n)"
  unfolding remote_urls_def
  by (intro pres_bind pres_pygit pres_case_option pres_raise pres_return)

lemmas pres_reads = pres_return pres_raise pres_get_repo pres_path_exists pres_pygit
  pres_remotes_getitem pres_remote_exists pres_remote_refs pres_remote_urls

lemmas pres_struct = pres_bind pres_try_else pres_catch pres_if pres_case_option
  pres_case_prod3

lemma pres_assert_clean: "pres I assert_clean"
  unfolding assert_clean_def by (intro pres_struct pres_reads)

lemma pres_ensure_ref: "pres I ensure_ref"
  unfolding ensure_ref_def Let_def
  by (intro pres_struct pres_reads pres_case_prod)

lemma pres_case_sum:
  "(\<And>x. pres I (a x)) \<Longrightarrow> (\<And>x. pres I (b x)) \<Longrightarrow>
     pres I (case v of Inl x \<Rightarrow> a x | Inr x \<Rightarrow> b x)"
  by (cases v) simp_all

lemma pres_head_tags: "pres I head_tags"
  unfolding head_tags_def
  by (intro pres_struct pres_reads pres_case_sum)

lemma pres_ensure_remotes_loop_dry: "pres I (ensure_remotes_loop sh True rs)"
proof (induction rs)
  case Nil
  show ?case by (simp add: pres_return)
next
  case (Cons a rs)
  obtain n u where a: "a = (n, u)" by (cases a)
  show ?case unfolding a ensure_remotes_loop.simps
    by (intro pres_bind pres_catch Cons.IH) (simp_all add: pres_struct pres_reads)
qed

lemma pres_registered_remote_dry: "pres I (registered_remote sh True)"
  unfolding registered_remote_def ensure_remotes_def
  by (intro pres_struct pres_reads pres_ensure_remotes_loop_dry)

lemma pres_ensure_fetch_dry: "pres I (ensure_fetch sh True h)"
  unfolding ensure_fetch_def
  by (simp add: pres_struct pres_reads)

lemma pres_ensure_url_dry: "pres I (ensure_url sh True h)"
  unfolding ensure_url_def
  by (simp add: pres_struct pres_reads)

lemma pres_ensure_checkout_dry: "pres I (ensure_checkout sh True h c)"
  unfolding ensure_checkout_def
  by (simp add: pres_struct pres_reads)

lemma pres_ensure_upstream_dry: "pres I (ensure_upstream sh True t tr)"
  unfolding ensure_upstream_def
  by (simp add: pres_struct pres_reads)

lemma pres_ensure_remote_block_dry: "pres I (ensure_remote_block sh True h)"
  unfolding ensure_remote_block_def
  by (intro pres_struct pres_ensure_fetch_dry pres_ensure_url_dry pres_ensure_ref
      pres_ensure_checkout_dry pres_ensure_upstream_dry)

lemma ensure_clone_exists:
  "snd s (dpath (fst s)) \<noteq> Absent \<Longrightarrow> ensure_clone sh s = (Inr (), s)"
  by (simp add: ensure_clone_def bind_def get_repo_def path_exists_def return_def)

lemma ensure_unfold:
  "ensure sh dry s =
     (if snd s (dpath (fst s)) = Absent \<and> dry then (Inr (), s)
      else bind (ensure_clone sh) (\<lambda>_. ensure_rest sh dry) s)"
  by (simp add: ensure_def ensure_rest_def bind_def get_repo_def path_exists_def return_def)

lemma ensure_exists:
  "snd s (dpath (fst s)) \<noteq> Absent \<Longrightarrow> ensure sh dry s = ensure_rest sh dry s"
  by (simp add: ensure_unfold ensure_clone_exists bind_def)

lemma pres_ensure_rest_dry: "pres I (ensure_rest sh True)"
  unfolding ensure_rest_def
  by (intro pres_struct pres_reads pres_assert_clean pres_registered_remote_dry
      pres_ensure_remote_block_dry pres_head_tags)

lemma pres_ensure_dry: "pres I (ensure sh True)"
  unfolding pres_def
proof (intro allI impI)
  fix s assume i: "I s"
  show "I (snd (ensure sh True s))"
  proof (cases "snd s (dpath (fst s)) = Absent")
    case True
    with i show ?thesis by (simp add: ensure_unfold)
  next
    case False
    have "I (snd (ensure_rest sh True s))"
      using pres_ensure_rest_dry[of I sh] i unfolding pres_def by blast
    with False show ?thesis by (simp add: ensure_exists)
  qed
qed

text \<open>
  Claim C1. For every runner, repository and world, \<open>check\<close> (which is
  \<open>ensure\<close> in dry mode) leaves the state as it found it: no command is added to the
  command log, where every external command is recorded before it runs, and the world is
  unchanged. So no clone, fetch, remote add, remote set-url, checkout or set-upstream
  command is issued in dry mode.
\<close>

theorem check_no_mutation:
  "snd (check sh s) = s \<and> snd (ensure sh True s) = s"
  using pres_ensure_dry[of "\<lambda>t. t = s" sh] by (simp add: pres_def check_def)


lemmas engine_defs = ensure_def ensure_clone_def clone_def assert_clean_def registered_remote_def
  ensure_remotes_def ensure_remote_block_def ensure_fetch_def ensure_url_def ensure_ref_def
  ensure_checkout_def ensure_upstream_def head_tags_def pull_def check_def status_def
  bind_def return_def raise_def try_else_def catch_def get_repo_def path_exists_def pygit_def
  remotes_getitem_def remote_exists_def remote_refs_def remote_urls_def find_remote_def
  cmd_def cmd_here_def branch_str_def branch_in_def clone_command_def

lemmas ex_defs = ex_repo_def ex_wc_def ex_origin_def world_of_def sh_ok_def sh_fail_def
  sh_wipe_def ok_info_def fail_info_def

lemma check_example:
  "fst (check sh_wipe (ex_repo, world_of ''/code/proj'' (ex_wc\<lparr>active_branch := Some (''dev'', None)\<rparr>)))
     = Inr ()"
  by (simp add: engine_defs ex_defs)

theorem check_no_mutation_witness:
  "check sh_wipe (ex_repo, world_of ''/code/proj'' (ex_wc\<lparr>active_branch := Some (''dev'', None)\<rparr>))
     = (Inr (), (ex_repo, world_of ''/code/proj'' (ex_wc\<lparr>active_branch := Some (''dev'', None)\<rparr>)))"
  using check_example check_no_mutation[of sh_wipe
      "(ex_repo, world_of ''/code/proj'' (ex_wc\<lparr>active_branch := Some (''dev'', None)\<rparr>))"]
  by (metis prod.collapse)


section \<open>The command log only grows\<close>

lemma presD: "pres I m \<Longrightarrow> I s \<Longrightarrow> I (snd (m s))"
  unfolding pres_def by blast

lemma pres_prefix_cmd: "pres (log_prefix L) (cmd sh c d)"
  unfolding pres_def log_prefix_def
  by (auto simp: cmd_def Let_def split: prod.splits)

lemma pres_prefix_cmd_here: "pres (log_prefix L) (cmd_here sh c)"
  unfolding cmd_here_def
  by (intro pres_bind pres_get_repo pres_prefix_cmd pres_return)

lemmas pres_prefix = pres_struct pres_reads pres_prefix_cmd pres_prefix_cmd_here
  pres_case_prod pres_case_sum

lemma pres_case_error:
  "(\<And>t. pres I (a t)) \<Longrightarrow> pres I b \<Longrightarrow>
     pres I (case e of ShellException t \<Rightarrow> a t | _ \<Rightarrow> b)"
  by (cases e) simp_all

lemma pres_prefix_clone: "pres (log_prefix L) (clone sh)"
  unfolding clone_def
  by (intro pres_prefix pres_case_error)

lemma pres_prefix_ensure_clone: "pres (log_prefix L) (ensure_clone sh)"
  unfolding ensure_clone_def
  by (intro pres_prefix pres_prefix_clone)

lemma pres_prefix_loop: "pres (log_prefix L) (ensure_remotes_loop sh dry rs)"
proof (induction rs)
  case Nil
  show ?case by (simp add: pres_return)
next
  case (Cons a rs)
  obtain n u where a: "a = (n, u)" by (cases a)
  show ?case unfolding a ensure_remotes_loop.simps
    by (intro pres_prefix Cons.IH)
qed

lemma pres_prefix_ensure_remotes: "pres (log_prefix L) (ensure_remotes sh dry)"
  unfolding ensure_remotes_def
  by (intro pres_prefix pres_prefix_loop)

lemma pres_prefix_registered_remote: "pres (log_prefix L) (registered_remote sh dry)"
  unfolding registered_remote_def
  by (intro pres_prefix pres_prefix_ensure_remotes)

lemma pres_prefix_ensure_fetch: "pres (log_prefix L) (ensure_fetch sh dry h)"
  unfolding ensure_fetch_def by (intro pres_prefix)

lemma pres_prefix_ensure_url: "pres (log_prefix L) (ensure_url sh dry h)"
  unfolding ensure_url_def by (intro pres_prefix)

lemma pres_prefix_ensure_checkout: "pres (log_prefix L) (ensure_checkout sh dry h c)"
  unfolding ensure_checkout_def by (intro pres_prefix)

lemma pres_prefix_ensure_upstream: "pres (log_prefix L) (ensure_upstream sh dry t tr)"
  unfolding ensure_upstream_def by (intro pres_prefix)

lemma bind_snd_pres:
  assumes "I (snd (m s))" "\<And>a. pres I (f a)"
  shows "I (snd (bind m f s))"
proof -
  obtain x s' where ms: "m s = (x, s')" by (cases "m s")
  with assms(1) have i: "I s'" by simp
  show ?thesis
  proof (cases x)
    case (Inl e)
    with ms i show ?thesis by (simp add: bind_def)
  next
    case (Inr a)
    with ms presD[OF assms(2)[of a] i] show ?thesis by (simp add: bind_def)
  qed
qed

section \<open>The dirty guard and idempotence of ensure\<close>

lemma assert_clean_iff:
  "(\<exists>n. fst (assert_clean (r, w)) = Inl (DirtyRepoError n)) \<longleftrightarrow>
     (\<exists>wc. w (dpath r) = WorkCopy wc \<and> dirty wc)"
  by (cases "w (dpath r)") (auto simp: assert_clean_def bind_def get_repo_def pygit_def
      raise_def return_def)

lemma pull_dirty:
  "w (dpath r) = WorkCopy wc \<Longrightarrow> dirty wc \<Longrightarrow>
     pull sh (r, w) = (Inl (DirtyRepoError (name r)), (r, w))"
  by (simp add: pull_def assert_clean_def bind_def get_repo_def pygit_def raise_def)

lemma ensure_dirty:
  "w (dpath r) = WorkCopy wc \<Longrightarrow> dirty wc \<Longrightarrow>
     ensure sh dry (r, w) = (Inl (DirtyRepoError (name r)), (r, w))"
  by (simp add: ensure_exists ensure_rest_def assert_clean_def bind_def get_repo_def pygit_def
      raise_def)

lemma ensure_clone_dirty:
  "w (dpath r) = Absent \<Longrightarrow> sh (clone_command r) (code_dpath r) w = (info, w') \<Longrightarrow>
   ret info = 0 \<Longrightarrow> w' (dpath r) = WorkCopy wc \<Longrightarrow> dirty wc \<Longrightarrow>
     ensure sh False (r, w) =
       (Inl (DirtyRepoError (name r)),
        (r\<lparr>logged_cmds := logged_cmds r @ [(clone_command r, code_dpath r)]\<rparr>, w'))"
  by (simp add: ensure_unfold ensure_rest_def ensure_clone_def clone_def cmd_def catch_def
      try_else_def assert_clean_def bind_def get_repo_def pygit_def path_exists_def
      raise_def return_def)

text \<open>
  Claim C2. \<open>_assert_clean\<close> raises \<open>DirtyRepoError\<close> exactly when the working
  copy at \<open>dpath\<close> reports dirty. On a dirty working copy \<open>pull\<close> and
  \<open>ensure\<close> (dry or live) raise that error without logging a command and without
  changing the world; when \<open>ensure\<close> first had to clone and the fresh working copy
  is dirty, the clone is the only command it ran.
\<close>

theorem dirty_guard:
  "((\<exists>n. fst (assert_clean (r, w)) = Inl (DirtyRepoError n)) \<longleftrightarrow>
      (\<exists>wc. w (dpath r) = WorkCopy wc \<and> dirty wc)) \<and>
   (\<forall>wc. w (dpath r) = WorkCopy wc \<and> dirty wc \<longrightarrow>
      pull sh (r, w) = (Inl (DirtyRepoError (name r)), (r, w)) \<and>
      ensure sh dry (r, w) = (Inl (DirtyRepoError (name r)), (r, w))) \<and>
   (\<forall>info w' wc. w (dpath r) = Absent \<and> sh (clone_command r) (code_dpath r) w = (info, w') \<and>
      ret info = 0 \<and> w' (dpath r) = WorkCopy wc \<and> dirty wc \<longrightarrow>
      ensure sh False (r, w) =
        (Inl (DirtyRepoError (name r)),
         (r\<lparr>logged_cmds := logged_cmds r @ [(clone_command r, code_dpath r)]\<rparr>, w')))"
  using assert_clean_iff pull_dirty ensure_dirty ensure_clone_dirty by blast

lemma ex_dirty_facts:
  "ex_dirty_world (dpath ex_repo) = WorkCopy (ex_wc\<lparr>dirty := True\<rparr>) \<and> dirty (ex_wc\<lparr>dirty := True\<rparr>)"
  by (simp add: ex_dirty_world_def ex_defs)

theorem dirty_guard_witness:
  "ex_dirty_world (dpath ex_repo) = WorkCopy (ex_wc\<lparr>dirty := True\<rparr>) \<and>
   dirty (ex_wc\<lparr>dirty := True\<rparr>) \<and>
   pull sh_wipe (ex_repo, ex_dirty_world) = (Inl (DirtyRepoError (name ex_repo)), (ex_repo, ex_dirty_world)) \<and>
   ensure sh_wipe False (ex_repo, ex_dirty_world) =
     (Inl (DirtyRepoError (name ex_repo)), (ex_repo, ex_dirty_world))"
  using dirty_guard[of ex_repo ex_dirty_world sh_wipe False, THEN conjunct2, THEN conjunct1,
      rule_format, OF ex_dirty_facts] ex_dirty_facts
  by simp

lemma desired_facts:
  assumes "desired_state r w"
  obtains wc rc where "w (dpath r) = WorkCopy wc" "\<not> dirty wc"
    "find_remote (remote r) wc = Some rc" "rexists rc" "url r \<in> set (rurls rc)" "head_ok r wc"
proof -
  from assms obtain wc where wc: "w (dpath r) = WorkCopy wc"
    by (cases "w (dpath r)") (simp_all add: desired_state_def)
  with assms obtain rc where rc: "find_remote (remote r) wc = Some rc"
    by (cases "find_remote (remote r) wc") (simp_all add: desired_state_def)
  from assms wc rc have "\<not> dirty wc" "rexists rc" "url r \<in> set (rurls rc)" "head_ok r wc"
    by (simp_all add: desired_state_def)
  with wc rc that show ?thesis by blast
qed

lemma desired_prelude:
  assumes "desired_state r w"
  shows "ensure sh False (r, w) =
           bind (ensure_remote_block sh False (remote r)) (\<lambda>_. bind head_tags (\<lambda>_. return ()))
             (r, w)"
proof -
  from assms obtain wc rc where f: "w (dpath r) = WorkCopy wc" "\<not> dirty wc"
    "find_remote (remote r) wc = Some rc" "rexists rc" by (rule desired_facts)
  have rr: "registered_remote sh False (r, w) = (Inr (Some (remote r)), (r, w))"
    using f by (simp add: registered_remote_def bind_def get_repo_def pygit_def
        remotes_getitem_def remote_exists_def try_else_def catch_def return_def raise_def)
  have ac: "assert_clean (r, w) = (Inr (), (r, w))"
    using f by (simp add: assert_clean_def bind_def get_repo_def pygit_def return_def)
  have "ensure_rest sh False (r, w) =
      bind (ensure_remote_block sh False (remote r)) (\<lambda>_. bind head_tags (\<lambda>_. return ())) (r, w)"
    unfolding ensure_rest_def using ac rr by (simp add: bind_def)
  then show ?thesis using f(1) by (simp add: ensure_exists)
qed

lemma desired_known_block:
  assumes "desired_state r w" "branch_known r w"
  shows "ensure_remote_block sh False (remote r) (r, w) = (Inr (), (r, w))"
proof -
  from assms(1) obtain wc rc where wc: "w (dpath r) = WorkCopy wc"
    and rc: "find_remote (remote r) wc = Some rc" and ru: "rexists rc" "url r \<in> set (rurls rc)"
    and h: "head_ok r wc" by (rule desired_facts)
  from assms(2) wc rc have bk: "branch_in r (rrefs rc)" by (simp add: branch_known_def)
  have ef: "ensure_fetch sh False (remote r) (r, w) = (Inr (), (r, w))"
    using wc rc ru bk by (simp add: ensure_fetch_def bind_def get_repo_def pygit_def
        remote_exists_def remote_refs_def try_else_def return_def raise_def)
  have eu: "ensure_url sh False (remote r) (r, w) = (Inr (), (r, w))"
    using wc rc ru by (simp add: ensure_url_def bind_def get_repo_def pygit_def
        remote_urls_def return_def)
  have rest: "bind ensure_ref (\<lambda>(ref_is_tag, tracking_branch, is_on_correct_commit).
     bind (ensure_checkout sh False (remote r) is_on_correct_commit) (\<lambda>_.
     ensure_upstream sh False ref_is_tag tracking_branch)) (r, w) = (Inr (), (r, w))"
  proof (cases "active_branch wc")
    case None
    let ?c = "filter (\<lambda>t. Some (tname t) = branch r) (tags wc)"
    from h None have hk: "(case ?c of [t] \<Rightarrow> head_commit wc \<noteq> None \<and> head_commit wc = tcommit t
        | _ \<Rightarrow> False)" by (simp add: head_ok_def)
    then obtain t where c1: "?c = [t]"
      by (cases ?c) (simp_all split: list.splits)
    with hk obtain c where c: "head_commit wc = Some c" "tcommit t = Some c"
      by (cases "head_commit wc") auto
    note t = c1 c
    show ?thesis using wc None t
      by (simp add: ensure_ref_def ensure_checkout_def ensure_upstream_def bind_def
          get_repo_def pygit_def return_def)
  next
    case (Some bt)
    obtain b tr where bt: "bt = (b, tr)" by (cases bt)
    with h Some have "branch r = Some b" "tr = Some (remote r)" by (simp_all add: head_ok_def)
    then show ?thesis using wc Some bt
      by (simp add: ensure_ref_def ensure_checkout_def ensure_upstream_def bind_def
          get_repo_def pygit_def return_def)
  qed
  show ?thesis unfolding ensure_remote_block_def using ef eu rest by (simp add: bind_def)
qed

lemma head_tags_state: "snd (head_tags s) = s"
  using presD[OF pres_head_tags, of "\<lambda>t. t = s" s] by simp

lemma desired_unknown_fetch:
  assumes "desired_state r w" "\<not> branch_known r w"
  shows "log_prefix (logged_cmds r @ [fetch_command r])
           (snd (ensure_fetch sh False (remote r) (r, w)))"
proof -
  from assms(1) obtain wc rc where wc: "w (dpath r) = WorkCopy wc"
    and rc: "find_remote (remote r) wc = Some rc" and ru: "rexists rc"
    by (rule desired_facts)
  from assms(2) wc rc have bk: "\<not> branch_in r (rrefs rc)" by (simp add: branch_known_def)
  have "ensure_fetch sh False (remote r) (r, w) = cmd_here sh (''git fetch '' @ remote r) (r, w)"
    using wc rc ru bk by (simp add: ensure_fetch_def bind_def get_repo_def pygit_def
        remote_exists_def remote_refs_def try_else_def return_def raise_def)
  moreover have "log_prefix (logged_cmds r @ [fetch_command r])
      (snd (cmd_here sh (''git fetch '' @ remote r) (r, w)))"
    by (simp add: log_prefix_def fetch_command_def cmd_here_def cmd_def bind_def get_repo_def
        return_def Let_def split: prod.splits)
  ultimately show ?thesis by simp
qed

text \<open>
  Claim C6, as amended. Let the repository be in the desired state. If the declared
  branch name is among the remote branches known for the active remote, a live
  \<open>ensure\<close> records no command and changes nothing, whatever the runner; its result
  is that of the closing read of the tags, which raises only when the commit of a tag, or
  of the head, cannot be read. If the name is not among them, the first command the run
  records is \<open>git fetch\<close> of the active remote.
\<close>

theorem ensure_idempotent:
  assumes "desired_state r w"
  shows "(branch_known r w \<longrightarrow>
            snd (ensure sh False (r, w)) = (r, w) \<and>
            fst (ensure sh False (r, w)) =
              (case fst (head_tags (r, w)) of Inl e \<Rightarrow> Inl e | Inr ts \<Rightarrow> Inr ())) \<and>
         (\<not> branch_known r w \<longrightarrow>
            prefix (logged_cmds r @ [(''git fetch '' @ remote r, Some (dpath r))])
              (logged_cmds (fst (snd (ensure sh False (r, w))))))"
proof (intro conjI impI)
  assume k: "branch_known r w"
  have e: "ensure sh False (r, w) = bind head_tags (\<lambda>_. return ()) (r, w)"
    unfolding desired_prelude[OF assms] using desired_known_block[OF assms k, of sh]
    by (simp add: bind_def)
  obtain x s' where ht: "head_tags (r, w) = (x, s')" by (cases "head_tags (r, w)")
  with head_tags_state[of "(r, w)"] have s': "s' = (r, w)" by simp
  show "snd (ensure sh False (r, w)) = (r, w)"
    unfolding e using ht s' by (cases x) (simp_all add: bind_def return_def)
  show "fst (ensure sh False (r, w)) =
      (case fst (head_tags (r, w)) of Inl e \<Rightarrow> Inl e | Inr ts \<Rightarrow> Inr ())"
    unfolding e using ht by (cases x) (simp_all add: bind_def return_def)
next
  assume k: "\<not> branch_known r w"
  let ?I = "log_prefix (logged_cmds r @ [fetch_command r])"
  have "?I (snd (ensure_remote_block sh False (remote r) (r, w)))"
    unfolding ensure_remote_block_def
  proof (rule bind_snd_pres[where I = ?I])
    show "?I (snd (ensure_fetch sh False (remote r) (r, w)))"
      by (rule desired_unknown_fetch[OF assms k])
  next
    fix a
    show "pres ?I (bind (ensure_url sh False (remote r)) (\<lambda>_.
     bind ensure_ref (\<lambda>(ref_is_tag, tracking_branch, is_on_correct_commit).
     bind (ensure_checkout sh False (remote r) is_on_correct_commit) (\<lambda>_.
     ensure_upstream sh False ref_is_tag tracking_branch))))"
      by (intro pres_bind pres_case_prod3 pres_prefix_ensure_url pres_ensure_ref
          pres_prefix_ensure_checkout pres_prefix_ensure_upstream)
  qed
  then have "?I (snd (ensure sh False (r, w)))"
    unfolding desired_prelude[OF assms]
    by (rule bind_snd_pres[where I = ?I]) (intro pres_bind pres_head_tags pres_return)
  then show "prefix (logged_cmds r @ [(''git fetch '' @ remote r, Some (dpath r))])
      (logged_cmds (fst (snd (ensure sh False (r, w)))))"
    by (simp add: log_prefix_def fetch_command_def)
qed

lemma ex_world_desired: "desired_state ex_repo ex_world" "branch_known ex_repo ex_world"
  by (simp_all add: desired_state_def branch_known_def head_ok_def find_remote_def branch_in_def
      ex_world_def ex_defs)

lemma ex_world_head_tags: "fst (head_tags (ex_repo, ex_world)) = Inr []"
  by (simp add: head_tags_def bind_def pygit_def return_def ex_world_def ex_defs)

lemma ex_norefs_desired:
  "desired_state ex_repo ex_world_norefs" "\<not> branch_known ex_repo ex_world_norefs"
  by (simp_all add: desired_state_def branch_known_def head_ok_def find_remote_def branch_in_def
      ex_world_norefs_def ex_defs)

theorem ensure_idempotent_witness:
  "desired_state ex_repo ex_world \<and> branch_known ex_repo ex_world \<and>
   ensure sh_wipe False (ex_repo, ex_world) = (Inr (), (ex_repo, ex_world)) \<and>
   desired_state ex_repo ex_world_norefs \<and> \<not> branch_known ex_repo ex_world_norefs \<and>
   prefix [(''git fetch origin'', Some ''/code/proj'')]
     (logged_cmds (fst (snd (ensure sh_wipe False (ex_repo, ex_world_norefs)))))"
proof -
  note a = ensure_idempotent[OF ex_world_desired(1), of sh_wipe, THEN conjunct1, rule_format,
      OF ex_world_desired(2)]
  note b = ensure_idempotent[OF ex_norefs_desired(1), of sh_wipe, THEN conjunct2, rule_format,
      OF ex_norefs_desired(2)]
  have "ensure sh_wipe False (ex_repo, ex_world) = (Inr (), (ex_repo, ex_world))"
    using a ex_world_head_tags by (simp add: prod_eq_iff)
  moreover have "prefix [(''git fetch origin'', Some ''/code/proj'')]
     (logged_cmds (fst (snd (ensure sh_wipe False (ex_repo, ex_world_norefs)))))"
    using b by (simp add: ex_repo_def)
  ultimately show ?thesis using ex_world_desired ex_norefs_desired by blast
qed

text \<open>
  Without the addition \<open>ensure\<close> fetches on every run: on the declared branch with
  the right upstream but no such branch listed for the remote, and on a repository pinned
  to a tag, each run records \<open>git fetch origin\<close>.
\<close>

theorem ensure_fetches_again:
  "desired_state ex_repo ex_world_norefs \<and>
   ensure sh_ok False (ex_repo, ex_world_norefs) =
     (Inr (), (ex_repo\<lparr>logged_cmds := [fetch_entry]\<rparr>, ex_world_norefs)) \<and>
   ensure sh_ok False (ex_repo\<lparr>logged_cmds := [fetch_entry]\<rparr>, ex_world_norefs) =
     (Inr (), (ex_repo\<lparr>logged_cmds := [fetch_entry, fetch_entry]\<rparr>, ex_world_norefs)) \<and>
   desired_state ex_tag_repo ex_tag_world \<and>
   ensure sh_ok False (ex_tag_repo, ex_tag_world) =
     (Inr (), (ex_tag_repo\<lparr>logged_cmds := [fetch_entry]\<rparr>, ex_tag_world)) \<and>
   ensure sh_ok False (ex_tag_repo\<lparr>logged_cmds := [fetch_entry]\<rparr>, ex_tag_world) =
     (Inr (), (ex_tag_repo\<lparr>logged_cmds := [fetch_entry, fetch_entry]\<rparr>, ex_tag_world))"
proof (intro conjI)
  show "desired_state ex_repo ex_world_norefs"
    by (simp add: desired_state_def head_ok_def find_remote_def ex_world_norefs_def ex_defs)
  show "desired_state ex_tag_repo ex_tag_world"
    by (simp add: desired_state_def head_ok_def find_remote_def ex_tag_world_def ex_tag_repo_def
        ex_defs)
  show "ensure sh_ok False (ex_repo, ex_world_norefs) =
     (Inr (), (ex_repo\<lparr>logged_cmds := [fetch_entry]\<rparr>, ex_world_norefs))"
    by (simp add: engine_defs ex_defs ex_world_norefs_def fetch_entry_def)
  show "ensure sh_ok False (ex_repo\<lparr>logged_cmds := [fetch_entry]\<rparr>, ex_world_norefs) =
     (Inr (), (ex_repo\<lparr>logged_cmds := [fetch_entry, fetch_entry]\<rparr>, ex_world_norefs))"
    by (simp add: engine_defs ex_defs ex_world_norefs_def fetch_entry_def)
  show "ensure sh_ok False (ex_tag_repo, ex_tag_world) =
     (Inr (), (ex_tag_repo\<lparr>logged_cmds := [fetch_entry]\<rparr>, ex_tag_world))"
    by (simp add: engine_defs ex_defs ex_tag_world_def ex_tag_repo_def fetch_entry_def)
  show "ensure sh_ok False (ex_tag_repo\<lparr>logged_cmds := [fetch_entry]\<rparr>, ex_tag_world) =
     (Inr (), (ex_tag_repo\<lparr>logged_cmds := [fetch_entry, fetch_entry]\<rparr>, ex_tag_world))"
    by (simp add: engine_defs ex_defs ex_tag_world_def ex_tag_repo_def fetch_entry_def)
qed

section \<open>Registering the active remote\<close>

lemma loop_dry_missing:
  assumes "w (dpath r) = WorkCopy wc" "\<exists>(n, u)\<in>set rs. find_remote n wc = None"
  shows "ensure_remotes_loop sh True rs (r, w) = (Inl dry_refusal, (r, w))"
  using assms(2)
proof (induction rs)
  case Nil
  then show ?case by simp
next
  case (Cons a rs)
  obtain n u where a: "a = (n, u)" by (cases a)
  show ?case
  proof (cases "find_remote n wc")
    case None
    then show ?thesis using assms(1) unfolding a
      by (simp add: bind_def catch_def try_else_def remotes_getitem_def pygit_def raise_def
          dry_refusal_def)
  next
    case (Some rc)
    with Cons.prems a have "\<exists>(n, u)\<in>set rs. find_remote n wc = None" by auto
    from Cons.IH[OF this] show ?thesis using assms(1) Some unfolding a
      by (simp add: bind_def catch_def try_else_def remotes_getitem_def remote_urls_def
          pygit_def return_def)
  qed
qed

lemma registered_remote_dry_missing:
  assumes "w (dpath r) = WorkCopy wc" "find_remote (remote r) wc = None"
    "remote r \<in> fst ` set (remotes r)"
  shows "registered_remote sh True (r, w) = (Inl dry_refusal, (r, w))"
proof -
  from assms(2,3) have "\<exists>(n, u)\<in>set (remotes r). find_remote n wc = None" by force
  then have "ensure_remotes_loop sh True (remotes r) (r, w) = (Inl dry_refusal, (r, w))"
    using assms(1) by (rule loop_dry_missing[rotated])
  then have "ensure_remotes sh True (r, w) = (Inl dry_refusal, (r, w))"
    by (simp add: ensure_remotes_def bind_def get_repo_def)
  then show ?thesis using assms(1,2)
    by (simp add: registered_remote_def bind_def get_repo_def catch_def try_else_def
        remotes_getitem_def pygit_def raise_def)
qed

lemma only_adds_cmd:
  assumes "(n, u) \<in> set (remotes r)"
  shows "pres (only_adds r) (cmd_here sh (add_command n u))"
  unfolding pres_def
proof (intro allI impI)
  fix s assume "only_adds r s"
  then obtain adds where a: "fst s = r\<lparr>logged_cmds := logged_cmds r @ adds\<rparr>"
    "\<forall>c\<in>set adds. \<exists>n u. (n, u) \<in> set (remotes r) \<and> c = (add_command n u, Some (dpath r))"
    unfolding only_adds_def by blast
  obtain info w' where sh: "sh (add_command n u) (Some (dpath r)) (snd s) = (info, w')"
    by (cases "sh (add_command n u) (Some (dpath r)) (snd s)")
  have "fst (snd (cmd_here sh (add_command n u) s)) =
      r\<lparr>logged_cmds := logged_cmds r @ (adds @ [(add_command n u, Some (dpath r))])\<rparr>"
    using a(1) sh by (simp add: cmd_here_def cmd_def bind_def get_repo_def return_def Let_def)
  moreover have "\<forall>c\<in>set (adds @ [(add_command n u, Some (dpath r))]).
      \<exists>n u. (n, u) \<in> set (remotes r) \<and> c = (add_command n u, Some (dpath r))"
    using a(2) assms by auto
  ultimately show "only_adds r (snd (cmd_here sh (add_command n u) s))"
    unfolding only_adds_def by blast
qed

lemma only_adds_loop:
  assumes "set rs \<subseteq> set (remotes r)"
  shows "pres (only_adds r) (ensure_remotes_loop sh False rs)"
  using assms
proof (induction rs)
  case Nil
  show ?case by (simp add: pres_return)
next
  case (Cons a rs)
  obtain n u where a: "a = (n, u)" by (cases a)
  have c: "pres (only_adds r) (cmd_here sh (''git remote add '' @ n @ '' '' @ u))"
    using only_adds_cmd[of n u r sh] Cons.prems a by (simp add: add_command_def)
  have ih: "pres (only_adds r) (ensure_remotes_loop sh False rs)"
    using Cons by simp
  show ?case unfolding a ensure_remotes_loop.simps
    by (intro pres_bind pres_catch ih pres_if c pres_reads)
qed

lemma only_adds_ensure_remotes: "pres (only_adds r) (ensure_remotes sh False)"
  unfolding pres_def
proof (intro allI impI)
  fix s assume i: "only_adds r s"
  then have "remotes (fst s) = remotes r" unfolding only_adds_def by auto
  then have "ensure_remotes sh False s = ensure_remotes_loop sh False (remotes r) s"
    by (simp add: ensure_remotes_def bind_def get_repo_def)
  moreover have "only_adds r (snd (ensure_remotes_loop sh False (remotes r) s))"
    by (rule presD[OF only_adds_loop i]) simp
  ultimately show "only_adds r (snd (ensure_remotes sh False s))" by simp
qed

lemma only_adds_registered_remote: "pres (only_adds r) (registered_remote sh False)"
  unfolding registered_remote_def
  by (intro pres_struct pres_reads only_adds_ensure_remotes)

lemma only_adds_init: "only_adds r (r, w)"
  unfolding only_adds_def by (intro exI[of _ "[]"]) simp

lemma bind_Inr:
  "bind m f s = (Inr b, s') \<Longrightarrow> \<exists>a s1. m s = (Inr a, s1) \<and> f a s1 = (Inr b, s')"
  by (cases "m s") (auto simp: bind_def split: sum.splits)

lemma try_else_Inr:
  "try_else m p h f s = (Inr b, s') \<Longrightarrow>
     (\<exists>a s1. m s = (Inr a, s1) \<and> f a s1 = (Inr b, s')) \<or>
     (\<exists>e s1. m s = (Inl e, s1) \<and> p e \<and> h e s1 = (Inr b, s'))"
  by (cases "m s") (auto simp: try_else_def split: sum.splits if_splits)

lemma lookup_None:
  assumes "catch (bind (remotes_getitem n) (\<lambda>h. return (Some h))) is_IndexError
             (\<lambda>_. return None) s = (Inr None, s')"
  shows "s' = s \<and> (\<exists>wc. snd s (dpath (fst s)) = WorkCopy wc \<and> find_remote n wc = None)"
  using assms
  by (cases "snd s (dpath (fst s))")
     (auto simp: catch_def try_else_def bind_def remotes_getitem_def pygit_def return_def
       raise_def split: option.splits if_splits)

lemma tail_None:
  assumes "(case rm of None \<Rightarrow> return None
           | Some h \<Rightarrow>
               try_else
                 (bind (remote_exists h) (\<lambda>ex. if \<not> ex then raise IndexError else return ()))
                 is_IndexError
                 (\<lambda>_. return (Some h))
                 (\<lambda>_. bind (remote_exists h) (\<lambda>ex. return (Some h)))) s = (Inr None, s')"
  shows "rm = None \<and> s' = s"
proof (cases rm)
  case None
  with assms show ?thesis by (simp add: return_def)
next
  case (Some h)
  with assms have t: "try_else
                 (bind (remote_exists h) (\<lambda>ex. if \<not> ex then raise IndexError else return ()))
                 is_IndexError
                 (\<lambda>_. return (Some h))
                 (\<lambda>_. bind (remote_exists h) (\<lambda>ex. return (Some h))) s = (Inr None, s')"
    by simp
  from try_else_Inr[OF t] show ?thesis
  proof
    assume "\<exists>a s1. bind (remote_exists h) (\<lambda>ex. if \<not> ex then raise IndexError else return ()) s
        = (Inr a, s1) \<and> bind (remote_exists h) (\<lambda>ex. return (Some h)) s1 = (Inr None, s')"
    then obtain s1 where "bind (remote_exists h) (\<lambda>ex. return (Some h)) s1 = (Inr None, s')"
      by blast
    from bind_Inr[OF this] show ?thesis by (simp add: return_def)
  next
    assume "\<exists>e s1. bind (remote_exists h) (\<lambda>ex. if \<not> ex then raise IndexError else return ()) s
        = (Inl e, s1) \<and> is_IndexError e \<and> return (Some h) s1 = (Inr None, s')"
    then show ?thesis by (simp add: return_def)
  qed
qed

lemma registered_remote_None:
  assumes "registered_remote sh dry (r, w) = (Inr None, (r', w'))"
  shows "\<exists>wc'. w' (dpath r') = WorkCopy wc' \<and> find_remote (remote r) wc' = None"
proof -
  let ?look = "catch (bind (remotes_getitem (remote r)) (\<lambda>h. return (Some h))) is_IndexError
                 (\<lambda>_. return None)"
  let ?first = "catch (bind (remotes_getitem (remote r)) (\<lambda>h. return (Some h)))
          is_IndexError (\<lambda>_. bind (ensure_remotes sh dry) (\<lambda>_. ?look))"
  from assms obtain rm s1 where f: "?first (r, w) = (Inr rm, s1)"
    and t: "(case rm of None \<Rightarrow> return None
           | Some h \<Rightarrow>
               try_else
                 (bind (remote_exists h) (\<lambda>ex. if \<not> ex then raise IndexError else return ()))
                 is_IndexError
                 (\<lambda>_. return (Some h))
                 (\<lambda>_. bind (remote_exists h) (\<lambda>ex. return (Some h)))) s1 = (Inr None, (r', w'))"
    unfolding registered_remote_def
    by (simp add: bind_def[of get_repo] get_repo_def) (drule bind_Inr, blast)
  from tail_None[OF t] have rm: "rm = None" and s1: "s1 = (r', w')" by simp_all
  from f rm have "?first (r, w) = (Inr None, s1)" by simp
  then have "(\<exists>a s2. bind (remotes_getitem (remote r)) (\<lambda>h. return (Some h)) (r, w) = (Inr a, s2)
        \<and> return a s2 = (Inr None, s1)) \<or>
     (\<exists>e s2. bind (remotes_getitem (remote r)) (\<lambda>h. return (Some h)) (r, w) = (Inl e, s2) \<and>
        is_IndexError e \<and> bind (ensure_remotes sh dry) (\<lambda>_. ?look) s2 = (Inr None, s1))"
    unfolding catch_def[of _ _ "\<lambda>_. bind (ensure_remotes sh dry) (\<lambda>_. ?look)"]
    by (rule try_else_Inr)
  then obtain s2 where "bind (ensure_remotes sh dry) (\<lambda>_. ?look) s2 = (Inr None, s1)"
  proof
    assume "\<exists>a s2. bind (remotes_getitem (remote r)) (\<lambda>h. return (Some h)) (r, w) = (Inr a, s2)
        \<and> return a s2 = (Inr None, s1)"
    then obtain s2 where "bind (remotes_getitem (remote r)) (\<lambda>h. return (Some h)) (r, w)
        = (Inr None, s2)" by (auto simp: return_def)
    from bind_Inr[OF this] have False by (simp add: return_def)
    then show ?thesis ..
  next
    assume "\<exists>e s2. bind (remotes_getitem (remote r)) (\<lambda>h. return (Some h)) (r, w) = (Inl e, s2) \<and>
        is_IndexError e \<and> bind (ensure_remotes sh dry) (\<lambda>_. ?look) s2 = (Inr None, s1)"
    then show ?thesis using that by blast
  qed
  from bind_Inr[OF this] obtain s3 where "?look s3 = (Inr None, s1)" by blast
  from lookup_None[OF this] s1 show ?thesis by auto
qed

lemma try_else_snd_pres:
  assumes "I (snd (m s))" "\<And>e. pres I (h e)" "\<And>a. pres I (f a)"
  shows "I (snd (try_else m p h f s))"
proof -
  obtain x s' where ms: "m s = (x, s')" by (cases "m s")
  with assms(1) have i: "I s'" by simp
  show ?thesis
  proof (cases x)
    case (Inl e)
    with ms i presD[OF assms(2)[of e] i] show ?thesis by (simp add: try_else_def)
  next
    case (Inr a)
    with ms presD[OF assms(3)[of a] i] show ?thesis by (simp add: try_else_def)
  qed
qed

lemma bind_state_cong: "m s = m' s \<Longrightarrow> bind m f s = bind m' f s"
  by (simp add: bind_def)

lemma catch_raises: "m s = (Inl e, s') \<Longrightarrow> p e \<Longrightarrow> catch m p h s = h e s'"
  by (simp add: catch_def try_else_def)

lemma cmd_here_logs:
  "log_prefix (logged_cmds r @ [(c, Some (dpath r))]) (snd (cmd_here sh c (r, w)))"
  by (simp add: log_prefix_def cmd_here_def cmd_def bind_def get_repo_def return_def Let_def
      split: prod.splits)

lemma loop_live_first_add:
  assumes "w (dpath r) = WorkCopy wc" "first_missing wc rs = Some (n, u)"
  shows "log_prefix (logged_cmds r @ [(add_command n u, Some (dpath r))])
           (snd (ensure_remotes_loop sh False rs (r, w)))"
  using assms(2)
proof (induction rs)
  case Nil
  then show ?case by (simp add: first_missing_def)
next
  case (Cons a rs)
  let ?I = "log_prefix (logged_cmds r @ [(add_command n u, Some (dpath r))])"
  obtain n0 u0 where a: "a = (n0, u0)" by (cases a)
  show ?case
  proof (cases "find_remote n0 wc")
    case (Some rc)
    with Cons.prems a have "first_missing wc rs = Some (n, u)" by (simp add: first_missing_def)
    from Cons.IH[OF this] show ?thesis using assms(1) Some unfolding a
      by (simp add: bind_def catch_def try_else_def remotes_getitem_def remote_urls_def
          pygit_def return_def)
  next
    case None
    with Cons.prems a have nu: "n0 = n" "u0 = u" by (simp_all add: first_missing_def)
    let ?h = "\<lambda>e. bind get_repo (\<lambda>r. if n = remote r then raise e else return ())"
    let ?body = "catch (cmd_here sh (''git remote add '' @ n @ '' '' @ u)) is_ShellException ?h"
    let ?M = "catch
          (bind (remotes_getitem n) (\<lambda>h. bind (remote_urls h) (\<lambda>have_urls. return ())))
          is_IndexError
          (\<lambda>_. catch
                 (if \<not> False
                  then cmd_here sh (''git remote add '' @ n @ '' '' @ u)
                  else raise (AssertionError ''In dry mode, cannot ensure remotes''))
                 is_ShellException ?h)"
    have body: "?M (r, w) = ?body (r, w)"
    proof -
      have gi: "bind (remotes_getitem n) (\<lambda>h. bind (remote_urls h) (\<lambda>have_urls. return ())) (r, w)
          = (Inl IndexError, (r, w))"
        using assms(1) None nu by (simp add: bind_def remotes_getitem_def pygit_def raise_def)
      show ?thesis
        by (subst catch_raises[where s = "(r, w)" and e = IndexError and s' = "(r, w)"
              and m = "bind (remotes_getitem n) (\<lambda>h. bind (remote_urls h) (\<lambda>have_urls. return ()))",
              OF gi]) simp_all
    qed
    have "?I (snd (?body (r, w)))"
      unfolding catch_def
    proof (rule try_else_snd_pres[where I = ?I])
      show "?I (snd (cmd_here sh (''git remote add '' @ n @ '' '' @ u) (r, w)))"
        using cmd_here_logs[of r "add_command n u" sh w] by (simp add: add_command_def)
    next
      fix e show "pres ?I (?h e)" by (intro pres_bind pres_get_repo pres_if pres_raise pres_return)
    next
      fix a :: unit show "pres ?I (return a)" by (rule pres_return)
    qed
    then have "?I (snd (bind ?body (\<lambda>_. ensure_remotes_loop sh False rs) (r, w)))"
      by (rule bind_snd_pres[where I = ?I]) (rule pres_prefix_loop)
    then show ?thesis unfolding a nu ensure_remotes_loop.simps
      using bind_state_cong[where m = ?M and m' = ?body and s = "(r, w)", OF body,
          of "\<lambda>_. ensure_remotes_loop sh False rs"] by simp
  qed
qed

lemma registered_live_first_add:
  assumes "w (dpath r) = WorkCopy wc" "find_remote (remote r) wc = None"
    "first_missing wc (remotes r) = Some (n, u)"
  shows "log_prefix (logged_cmds r @ [(add_command n u, Some (dpath r))])
           (snd (registered_remote sh False (r, w)))"
proof -
  let ?I = "log_prefix (logged_cmds r @ [(add_command n u, Some (dpath r))])"
  let ?look = "catch (bind (remotes_getitem (remote r)) (\<lambda>h. return (Some h))) is_IndexError
                 (\<lambda>_. return None)"
  let ?tail = "\<lambda>rm. case rm of
               None \<Rightarrow> return None
             | Some h \<Rightarrow>
                 try_else
                   (bind (remote_exists h) (\<lambda>ex. if \<not> ex then raise IndexError else return ()))
                   is_IndexError
                   (\<lambda>_. return (Some h))
                   (\<lambda>_. bind (remote_exists h) (\<lambda>ex. return (Some h)))"
  let ?first = "catch (bind (remotes_getitem (remote r)) (\<lambda>h. return (Some h)))
          is_IndexError (\<lambda>_. bind (ensure_remotes sh False) (\<lambda>_. ?look))"
  have f: "?first (r, w) = bind (ensure_remotes_loop sh False (remotes r)) (\<lambda>_. ?look) (r, w)"
  proof -
    have gi: "bind (remotes_getitem (remote r)) (\<lambda>h. return (Some h)) (r, w)
        = (Inl IndexError, (r, w))"
      using assms(1,2) by (simp add: bind_def remotes_getitem_def pygit_def raise_def)
    have er: "ensure_remotes sh False (r, w) = ensure_remotes_loop sh False (remotes r) (r, w)"
      by (simp add: ensure_remotes_def bind_def get_repo_def)
    show ?thesis
      by (subst catch_raises[where s = "(r, w)" and e = IndexError and s' = "(r, w)"
            and m = "bind (remotes_getitem (remote r)) (\<lambda>h. return (Some h))", OF gi])
         (simp_all add: bind_state_cong[where s = "(r, w)" and m = "ensure_remotes sh False"
             and m' = "ensure_remotes_loop sh False (remotes r)", OF er])
  qed
  have "?I (snd (bind (ensure_remotes_loop sh False (remotes r)) (\<lambda>_. ?look) (r, w)))"
    by (rule bind_snd_pres[where I = ?I],
        rule loop_live_first_add[where w = w and r = r and wc = wc, OF assms(1,3)])
       (intro pres_catch pres_bind pres_remotes_getitem pres_return)
  with f have "?I (snd (?first (r, w)))" by simp
  then have "?I (snd (bind ?first ?tail (r, w)))"
    by (rule bind_snd_pres[where I = ?I])
       (intro pres_case_option pres_try_else pres_bind pres_remote_exists pres_if pres_raise
         pres_return)
  moreover have "registered_remote sh False (r, w) = bind ?first ?tail (r, w)"
    by (simp add: registered_remote_def bind_def[of get_repo] get_repo_def)
  ultimately show ?thesis by simp
qed

lemma first_missing_exists:
  assumes "find_remote (remote r) wc = None" "remote r \<in> fst ` set (remotes r)"
  shows "\<exists>n u. first_missing wc (remotes r) = Some (n, u)"
proof -
  from assms obtain u where "(remote r, u) \<in> set (remotes r)" by auto
  with assms(1) have "\<exists>x\<in>set (remotes r). (\<lambda>(n, u). find_remote n wc = None) x" by force
  then have "find (\<lambda>(n, u). find_remote n wc = None) (remotes r) \<noteq> None"
    unfolding find_None_iff by blast
  then show ?thesis unfolding first_missing_def by (cases "find (\<lambda>(n, u). find_remote n wc = None) (remotes r)") auto
qed

text \<open>
  Claim C3, as amended. When the active remote is declared but missing from the working
  copy's configuration, \<open>_registered_remote\<close> adds remotes in live mode only. In
  dry mode it runs no command and raises \<open>AssertionError\<close> (it does not return
  \<open>None\<close>). In live mode it runs \<open>git remote add\<close> for the first declared
  remote that is missing, the only commands it runs are \<open>git remote add\<close> for
  declared remotes, and it returns \<open>None\<close> only when the active remote is still
  missing afterwards.
\<close>

theorem registered_remote_missing:
  assumes "w (dpath r) = WorkCopy wc" "find_remote (remote r) wc = None"
    "remote r \<in> fst ` set (remotes r)"
  shows "registered_remote sh True (r, w) = (Inl dry_refusal, (r, w)) \<and>
         (\<exists>n u. first_missing wc (remotes r) = Some (n, u) \<and>
            prefix (logged_cmds r @ [(add_command n u, Some (dpath r))])
              (logged_cmds (fst (snd (registered_remote sh False (r, w)))))) \<and>
         (\<forall>res r' w'. registered_remote sh False (r, w) = (res, (r', w')) \<longrightarrow>
            only_adds r (r', w') \<and>
            (res = Inr None \<longrightarrow>
               (\<exists>wc'. w' (dpath r') = WorkCopy wc' \<and> find_remote (remote r) wc' = None)))"
proof (intro conjI allI impI)
  show "registered_remote sh True (r, w) = (Inl dry_refusal, (r, w))"
    using assms by (rule registered_remote_dry_missing)
next
  from first_missing_exists[OF assms(2,3)] obtain n u where
    f: "first_missing wc (remotes r) = Some (n, u)" by blast
  from registered_live_first_add[where w = w and r = r and wc = wc, OF assms(1,2) f, of sh]
  have "prefix (logged_cmds r @ [(add_command n u, Some (dpath r))])
      (logged_cmds (fst (snd (registered_remote sh False (r, w)))))"
    by (simp add: log_prefix_def)
  with f show "\<exists>n u. first_missing wc (remotes r) = Some (n, u) \<and>
      prefix (logged_cmds r @ [(add_command n u, Some (dpath r))])
        (logged_cmds (fst (snd (registered_remote sh False (r, w)))))" by blast
next
  fix res r' w' assume a: "registered_remote sh False (r, w) = (res, (r', w'))"
  have "only_adds r (snd (registered_remote sh False (r, w)))"
    by (rule presD[OF only_adds_registered_remote only_adds_init])
  with a show "only_adds r (r', w')" by simp
next
  fix res r' w' assume "registered_remote sh False (r, w) = (res, (r', w'))" "res = Inr None"
  then have "registered_remote sh False (r, w) = (Inr None, (r', w'))" by simp
  then show "\<exists>wc'. w' (dpath r') = WorkCopy wc' \<and> find_remote (remote r) wc' = None"
    by (rule registered_remote_None)
qed

lemma ex_noremote_facts:
  "ex_world_noremote (dpath ex_repo) = WorkCopy (ex_wc\<lparr>wremotes := []\<rparr>)"
  "find_remote (remote ex_repo) (ex_wc\<lparr>wremotes := []\<rparr>) = None"
  "remote ex_repo \<in> fst ` set (remotes ex_repo)"
  by (simp_all add: ex_world_noremote_def find_remote_def ex_defs)

lemma ex_noremote_live:
  "registered_remote sh_ok False (ex_repo, ex_world_noremote) =
     (Inr None, (ex_repo\<lparr>logged_cmds := [add_entry]\<rparr>, ex_world_noremote))"
  by (simp add: engine_defs ex_defs ex_world_noremote_def add_entry_def)

theorem registered_remote_missing_witness:
  "registered_remote sh_ok True (ex_repo, ex_world_noremote) =
     (Inl dry_refusal, (ex_repo, ex_world_noremote)) \<and>
   registered_remote sh_ok False (ex_repo, ex_world_noremote) =
     (Inr None, (ex_repo\<lparr>logged_cmds := [add_entry]\<rparr>, ex_world_noremote)) \<and>
   only_adds ex_repo (ex_repo\<lparr>logged_cmds := [add_entry]\<rparr>, ex_world_noremote)"
  using registered_remote_missing[where w = ex_world_noremote and r = ex_repo
      and wc = "ex_wc\<lparr>wremotes := []\<rparr>" and sh = sh_ok, OF ex_noremote_facts] ex_noremote_live
  by blast

text \<open>
  With no remote registered, the dry call (and with it \<open>check\<close>) raises
  \<open>AssertionError\<close>, and a live call whose \<open>git remote add\<close> fails raises
  \<open>ShellException\<close>: neither returns \<open>None\<close>.
\<close>

theorem registered_remote_raises:
  "registered_remote sh_ok True (ex_repo, ex_world_noremote) =
     (Inl (AssertionError ''In dry mode, cannot ensure remotes''), (ex_repo, ex_world_noremote)) \<and>
   check sh_ok (ex_repo, ex_world_noremote) =
     (Inl (AssertionError ''In dry mode, cannot ensure remotes''), (ex_repo, ex_world_noremote)) \<and>
   registered_remote sh_fail False (ex_repo, ex_world_noremote) =
     (Inl (ShellException ''fatal''), (ex_repo\<lparr>logged_cmds := [add_entry]\<rparr>, ex_world_noremote))"
  by (simp add: engine_defs ex_defs ex_world_noremote_def add_entry_def)

section \<open>The latest development branch\<close>

















section \<open>What every operation keeps\<close>











section \<open>The registry\<close>

















section \<open>The descriptor\<close>


















end
